theory Spec2Isabelle
  imports Main
begin

section \<open>Go library functions the program relies on\<close>

text \<open>
  A Go \<open>string\<close> is a sequence of bytes; it is modelled as \<^typ>\<open>string\<close> (a list of 8-bit
  characters), so \<^const>\<open>length\<close> is Go's \<open>len\<close>.  Package \<open>strings\<close> reads the bytes as
  UTF-8, and so do the functions below.
\<close>

fun HasPrefix :: "string \<Rightarrow> string \<Rightarrow> bool" where
  "HasPrefix s [] = True"
| "HasPrefix [] (p # ps) = False"
| "HasPrefix (c # cs) (p # ps) = (c = p \<and> HasPrefix cs ps)"

text \<open>
  The UTF-8 encodings of the runes for which \<open>unicode.IsSpace\<close> holds: U+0009 to U+000D,
  U+0020, U+0085, U+00A0, U+1680, U+2000 to U+200A, U+2028, U+2029, U+202F, U+205F and
  U+3000.  Each of them begins with a byte that is no continuation byte, so that an
  occurrence in a string is always a rune of the string; a byte that is not part of valid
  UTF-8 is the rune \<open>U+FFFD\<close> of width 1 to Go, which is no white space.
\<close>

definition spaces :: "string list" where
  "spaces =
     [[CHR 0x09], [CHR 0x0A], [CHR 0x0B], [CHR 0x0C], [CHR 0x0D], [CHR 0x20],
      [CHR 0xC2, CHR 0x85], [CHR 0xC2, CHR 0xA0], [CHR 0xE1, CHR 0x9A, CHR 0x80],
      [CHR 0xE2, CHR 0x80, CHR 0x80], [CHR 0xE2, CHR 0x80, CHR 0x81],
      [CHR 0xE2, CHR 0x80, CHR 0x82], [CHR 0xE2, CHR 0x80, CHR 0x83],
      [CHR 0xE2, CHR 0x80, CHR 0x84], [CHR 0xE2, CHR 0x80, CHR 0x85],
      [CHR 0xE2, CHR 0x80, CHR 0x86], [CHR 0xE2, CHR 0x80, CHR 0x87],
      [CHR 0xE2, CHR 0x80, CHR 0x88], [CHR 0xE2, CHR 0x80, CHR 0x89],
      [CHR 0xE2, CHR 0x80, CHR 0x8A], [CHR 0xE2, CHR 0x80, CHR 0xA8],
      [CHR 0xE2, CHR 0x80, CHR 0xA9], [CHR 0xE2, CHR 0x80, CHR 0xAF],
      [CHR 0xE2, CHR 0x81, CHR 0x9F], [CHR 0xE3, CHR 0x80, CHR 0x80]]"

text \<open>The number of bytes of the white space rune the string begins with, 0 if it begins with none.\<close>

fun spaceWidth :: "string list \<Rightarrow> string \<Rightarrow> nat" where
  "spaceWidth [] s = 0"
| "spaceWidth (w # ws) s = (if HasPrefix s w then length w else spaceWidth ws s)"

function trimLeft :: "string list \<Rightarrow> string \<Rightarrow> string" where
  "trimLeft ws s =
     (let n = spaceWidth ws s in if 0 < n \<and> s \<noteq> [] then trimLeft ws (drop n s) else s)"
  by pat_completeness auto
termination
  by (relation "measure (\<lambda>(ws, s). length s)") auto

declare trimLeft.simps [simp del]

text \<open>
  \<open>strings.TrimSpace\<close>: the leading white space is removed, then the trailing white space,
  which is read from the end of the string backwards.
\<close>

definition TrimSpace :: "string \<Rightarrow> string" where
  "TrimSpace s = rev (trimLeft (map rev spaces) (rev (trimLeft spaces s)))"

text \<open>\<open>strings.Fields\<close>: the maximal runs of runes that are no white space, in order.\<close>

function fields_from :: "string \<Rightarrow> string \<Rightarrow> string list" where
  "fields_from cur s =
     (if s = [] then (if cur = [] then [] else [cur])
      else
        (let n = spaceWidth spaces s
         in if 0 < n then (if cur = [] then [] else [cur]) @ fields_from [] (drop n s)
            else fields_from (cur @ [hd s]) (tl s)))"
  by pat_completeness auto
termination
  by (relation "measure (\<lambda>(cur, s). length s)") auto

declare fields_from.simps [simp del]

definition Fields :: "string \<Rightarrow> string list" where
  "Fields s = fields_from [] s"

text \<open>
  \<open>strings.ToLower\<close>.  The letters \<open>A\<close> to \<open>Z\<close> become \<open>a\<close> to \<open>z\<close>, and the two runes whose
  lower case is an ASCII letter become that letter: U+0130 becomes \<open>i\<close> and U+212A becomes
  \<open>k\<close>.  Every other byte from 128 on is kept as it is, where Go writes the lower-case
  form of the rune, or \<open>U+FFFD\<close> for a byte that is not valid UTF-8: one or more bytes
  from 128 on in either case.  The program searches the result for ASCII text only, and
  what it finds does not depend on which bytes from 128 on stand between the ASCII ones.
\<close>

definition toLower :: "char \<Rightarrow> char" where
  "toLower c = (if (65::nat) \<le> of_char c \<and> of_char c \<le> (90::nat)
     then char_of (of_char c + (32::nat)) else c)"

function ToLower :: "string \<Rightarrow> string" where
  "ToLower s =
     (if s = [] then []
      else if HasPrefix s [CHR 0xC4, CHR 0xB0] then CHR ''i'' # ToLower (drop 2 s)
      else if HasPrefix s [CHR 0xE2, CHR 0x84, CHR 0xAA] then CHR ''k'' # ToLower (drop 3 s)
      else toLower (hd s) # ToLower (tl s))"
  by pat_completeness auto
termination
  by (relation "measure length") auto

declare ToLower.simps [simp del]

fun Contains :: "string \<Rightarrow> string \<Rightarrow> bool" where
  "Contains [] sub = (sub = [])"
| "Contains (c # cs) sub = (HasPrefix (c # cs) sub \<or> Contains cs sub)"

text \<open>\<open>strings.Join\<close>.\<close>

fun Join :: "string list \<Rightarrow> string \<Rightarrow> string" where
  "Join [] sep = []"
| "Join [x] sep = x"
| "Join (x # y # ys) sep = x @ sep @ Join (y # ys) sep"

text \<open>The verb \<open>%d\<close> of \<open>fmt.Sprintf\<close> on a non-negative number.\<close>

function itoa :: "nat \<Rightarrow> string" where
  "itoa n = (if n < 10 then [char_of (48 + n)] else itoa (n div 10) @ [char_of (48 + n mod 10)])"
  by pat_completeness auto
termination
  by (relation "measure id") auto

declare itoa.simps [simp del]

subsection \<open>Binary64 arithmetic\<close>

text \<open>
  A finite \<open>float64\<close> is the pair \<open>(m, e)\<close> of its signed 53-bit significand and its
  exponent, standing for \<open>m * 2 ^ e\<close>; zero is \<open>(0, 0)\<close>.  Every operation computes the exact
  result and rounds it to the nearest representable value, ties to the even significand,
  as IEEE 754 prescribes.  Infinities and NaN do not arise from the sums the program forms
  and are not modelled.
\<close>

type_synonym float64 = "int \<times> int"

function bit_length :: "int \<Rightarrow> nat" where
  "bit_length n = (if n \<le> 0 then 0 else Suc (bit_length (n div 2)))"
  by pat_completeness auto
termination
  by (relation "measure nat") auto

declare bit_length.simps [simp del]

definition round_half_even :: "int \<Rightarrow> int \<Rightarrow> int" where
  "round_half_even n u =
     (let m = n div u; r = n mod u
      in if 2 * r < u then m else if u < 2 * r then m + 1 else if even m then m else m + 1)"

text \<open>The integer \<open>l\<close> with \<open>2 ^ l \<le> a / d < 2 ^ (l + 1)\<close>, for positive \<open>a\<close> and \<open>d\<close>.\<close>

definition floor_log2 :: "int \<Rightarrow> int \<Rightarrow> int" where
  "floor_log2 a d =
     (let l = int (bit_length a) - int (bit_length d)
      in if (if 0 \<le> l then d * 2 ^ nat l \<le> a else d \<le> a * 2 ^ nat (- l)) then l else l - 1)"

text \<open>\<open>f64_round n d e\<close> is the \<open>float64\<close> nearest to the exact number \<open>n / d * 2 ^ e\<close>.\<close>

definition f64_round :: "int \<Rightarrow> int \<Rightarrow> int \<Rightarrow> float64" where
  "f64_round n d e =
     (if n = 0 then (0, 0)
      else
        (let a = \<bar>n\<bar>;
             E = max (- 1074) (floor_log2 a d + e - 52);
             s = E - e;
             M = (if 0 \<le> s then round_half_even a (d * 2 ^ nat s)
                  else round_half_even (a * 2 ^ nat (- s)) d)
         in if M = 2 ^ 53 then (sgn n * 2 ^ 52, E + 1) else (sgn n * M, E)))"

text \<open>A decimal constant of the source, \<open>f64_lit 7 10\<close> for \<open>0.7\<close>.\<close>

definition f64_lit :: "int \<Rightarrow> int \<Rightarrow> float64" where
  "f64_lit n d = f64_round n d 0"

definition f64_add :: "float64 \<Rightarrow> float64 \<Rightarrow> float64" where
  "f64_add x y =
     (let e = min (snd x) (snd y)
      in f64_round (fst x * 2 ^ nat (snd x - e) + fst y * 2 ^ nat (snd y - e)) 1 e)"

definition f64_sub :: "float64 \<Rightarrow> float64 \<Rightarrow> float64" where
  "f64_sub x y =
     (let e = min (snd x) (snd y)
      in f64_round (fst x * 2 ^ nat (snd x - e) - fst y * 2 ^ nat (snd y - e)) 1 e)"

definition f64_less :: "float64 \<Rightarrow> float64 \<Rightarrow> bool" where
  "f64_less x y =
     (let e = min (snd x) (snd y)
      in fst x * 2 ^ nat (snd x - e) < fst y * 2 ^ nat (snd y - e))"

definition f64_le :: "float64 \<Rightarrow> float64 \<Rightarrow> bool" where
  "f64_le x y =
     (let e = min (snd x) (snd y)
      in fst x * 2 ^ nat (snd x - e) \<le> fst y * 2 ^ nat (snd y - e))"

subsection \<open>Regular expressions\<close>

text \<open>
  The fragment of RE2 the program's patterns are written in: literals, alternation,
  sequence, the ASCII word boundary \<open>\b\<close> and \<open>\s+\<close>.  A matcher state is the input
  already read (reversed) and the input still to read.
\<close>

datatype regex =
    Lit string
  | Alt regex regex
  | Seq regex regex
  | WordBoundary
  | Spaces

definition isWordChar :: "char \<Rightarrow> bool" where
  "isWordChar c =
     (let n = (of_char c :: nat)
      in (48 \<le> n \<and> n \<le> 57) \<or> (65 \<le> n \<and> n \<le> 90) \<or> (97 \<le> n \<and> n \<le> 122) \<or> n = 95)"

definition isReSpace :: "char \<Rightarrow> bool" where
  "isReSpace c = (c \<in> set [CHR 0x09, CHR 0x0A, CHR 0x0C, CHR 0x0D, CHR '' ''])"

definition wordAt :: "string \<Rightarrow> bool" where
  "wordAt s = (case s of [] \<Rightarrow> False | c # _ \<Rightarrow> isWordChar c)"

fun spaces_from :: "string \<Rightarrow> string \<Rightarrow> (string \<times> string) list" where
  "spaces_from past [] = []"
| "spaces_from past (c # cs) =
     (if isReSpace c then (c # past, cs) # spaces_from (c # past) cs else [])"

fun rx_step :: "regex \<Rightarrow> string \<times> string \<Rightarrow> (string \<times> string) list" where
  "rx_step (Lit l) (past, rest) =
     (if HasPrefix rest l then [(rev l @ past, drop (length l) rest)] else [])"
| "rx_step (Alt r1 r2) st = rx_step r1 st @ rx_step r2 st"
| "rx_step (Seq r1 r2) st = concat (map (rx_step r2) (rx_step r1 st))"
| "rx_step WordBoundary (past, rest) =
     (if wordAt past \<noteq> wordAt rest then [(past, rest)] else [])"
| "rx_step Spaces (past, rest) = spaces_from past rest"

fun match_from :: "regex \<Rightarrow> string \<Rightarrow> string \<Rightarrow> bool" where
  "match_from r past [] = (rx_step r (past, []) \<noteq> [])"
| "match_from r past (c # cs) =
     (rx_step r (past, c # cs) \<noteq> [] \<or> match_from r (c # past) cs)"

text \<open>\<open>(*Regexp).MatchString\<close>: the pattern matches somewhere in the string.\<close>

definition MatchString :: "regex \<Rightarrow> string \<Rightarrow> bool" where
  "MatchString r s = match_from r [] s"

text \<open>An alternation of literals, as \<open>regexp.MustCompile\<close> reads a pattern \<open>a|b|c\<close>.\<close>

fun split_bar :: "string \<Rightarrow> string \<Rightarrow> string list" where
  "split_bar cur [] = [cur]"
| "split_bar cur (c # cs) =
     (if c = CHR ''|'' then cur # split_bar [] cs else split_bar (cur @ [c]) cs)"

fun alternation :: "string list \<Rightarrow> regex" where
  "alternation [] = Lit []"
| "alternation [l] = Lit l"
| "alternation (l # ls) = Alt (Lit l) (alternation ls)"

definition MustCompile :: "string \<Rightarrow> regex" where
  "MustCompile pattern = alternation (split_bar [] pattern)"

section \<open>Package prompt: the evaluator\<close>

record EvaluationResult =
  IsClear :: bool
  Feedback :: string
  SuggestedRefinement :: string
  Confidence :: float64
  DetectedIssues :: "string list"
  RefinedPrompt :: string
  SuggestedAgentKeywords :: "string list"

record Evaluator =
  vaguenessPatterns :: "regex list"
  minimumLength :: nat
  minimumWords :: nat
  confidenceThreshold :: float64

text \<open>
  The two patterns of \<open>NewEvaluator\<close> are \<^verbatim>\<open>\b(thing|stuff|something)\b\<close> and
  \<^verbatim>\<open>\b(check|look|review|fix)\s+(it|this|that)\b\<close>.
\<close>

definition NewEvaluator :: Evaluator where
  "NewEvaluator =
     \<lparr>vaguenessPatterns =
        [Seq WordBoundary (Seq (alternation [''thing'', ''stuff'', ''something'']) WordBoundary),
         Seq WordBoundary
           (Seq (alternation [''check'', ''look'', ''review'', ''fix''])
              (Seq Spaces (Seq (alternation [''it'', ''this'', ''that'']) WordBoundary)))],
      minimumLength = 10,
      minimumWords = 2,
      confidenceThreshold = f64_lit 7 10\<rparr>"

definition actions :: "string list" where
  "actions =
     [''review'', ''analyze'', ''check'', ''test'', ''generate'', ''design'', ''create'',
      ''refactor'', ''improve'', ''optimize'', ''fix'', ''debug'', ''explain'',
      ''implement'', ''architect'', ''validate'', ''verify'']"

fun action_loop :: "string list \<Rightarrow> string \<Rightarrow> bool" where
  "action_loop [] promptLower = False"
| "action_loop (action # rest) promptLower =
     (if Contains promptLower action then True else action_loop rest promptLower)"

definition containsActionVerb :: "string \<Rightarrow> bool" where
  "containsActionVerb prompt = action_loop actions (ToLower prompt)"

text \<open>
  \<open>domainKeywords\<close> is a Go map literal; its entries are listed here as they are declared.
  A \<open>range\<close> over a Go map visits the entries in an order the language leaves open, so
  \<open>ExtractKeywords\<close> takes the order of one traversal, \<open>visit\<close>, as an argument:
  any rearrangement of \<open>domainKeywords\<close> (\<open>map_order\<close>).
\<close>

definition domainKeywords :: "(string \<times> string list) list" where
  "domainKeywords =
     [(''code|review|quality|bug|issue|fix|check|error|performance|refactor|correct'',
         [''code-review'', ''quality'']),
      (''test|coverage|unit-test|mock|integration-test|edge-case'',
         [''test-generator'', ''testing'']),
      (''architecture|design|pattern|structure|organize|scale|module|boundary'',
         [''architecture-advisor'', ''design'']),
      (''doc|readme|guide|comment|explain|write|api|tutorial'',
         [''documentation-writer'', ''docs''])]"

fun remove_first :: "'a \<Rightarrow> 'a list \<Rightarrow> 'a list option" where
  "remove_first x [] = None"
| "remove_first x (y # ys) =
     (if x = y then Some ys else map_option ((#) y) (remove_first x ys))"

fun rearrangement :: "'a list \<Rightarrow> 'a list \<Rightarrow> bool" where
  "rearrangement [] ys = (ys = [])"
| "rearrangement (x # xs) ys =
     (case remove_first x ys of None \<Rightarrow> False | Some ys' \<Rightarrow> rearrangement xs ys')"

definition map_order :: "(string \<times> string list) list \<Rightarrow> bool" where
  "map_order visit = rearrangement visit domainKeywords"

fun pattern_loop :: "(string \<times> string list) list \<Rightarrow> string \<Rightarrow> string list \<Rightarrow> string list" where
  "pattern_loop [] promptLower keywords = keywords"
| "pattern_loop ((pattern, kws) # rest) promptLower keywords =
     (if MatchString (MustCompile pattern) promptLower
      then pattern_loop rest promptLower (keywords @ kws)
      else pattern_loop rest promptLower keywords)"

fun unique_loop :: "string list \<Rightarrow> string list \<Rightarrow> string list" where
  "unique_loop [] unique = unique"
| "unique_loop (kw # kws) unique =
     (if kw \<in> set unique then unique_loop kws unique else unique_loop kws (unique @ [kw]))"

definition ExtractKeywords :: "(string \<times> string list) list \<Rightarrow> string \<Rightarrow> string list" where
  "ExtractKeywords visit prompt =
     unique_loop (pattern_loop visit (ToLower prompt) []) []"

definition suggestRefinement :: "Evaluator \<Rightarrow> string \<Rightarrow> string list \<Rightarrow> string" where
  "suggestRefinement e prompt issues =
     (let refined = prompt;
          refined =
            (if 0 < length issues \<and> Contains (hd issues) ''vague''
             then (if \<not> Contains refined '' for '' \<and> \<not> Contains refined '' including ''
                   then refined @ '' for correctness and best practices'' else refined)
             else refined);
          refined =
            (if 0 < length issues \<and> Contains (hd issues) ''too short''
             then (if \<not> Contains refined '' including ''
                   then refined @ '' including error handling and edge cases'' else refined)
             else refined)
      in refined)"

text \<open>The loop over the vagueness patterns; it stops at the first pattern that matches.\<close>

fun vagueness_loop :: "regex list \<Rightarrow> string \<Rightarrow> EvaluationResult \<Rightarrow> EvaluationResult" where
  "vagueness_loop [] prompt result = result"
| "vagueness_loop (pattern # rest) prompt result =
     (if MatchString pattern (ToLower prompt)
      then result\<lparr>DetectedIssues := DetectedIssues result @
               [''Prompt uses vague terms (e.g., 'it', 'this', 'module')''],
             Confidence := f64_sub (Confidence result) (f64_lit 2 10)\<rparr>
      else vagueness_loop rest prompt result)"

text \<open>The blocks of \<open>Evaluate\<close>, in the order of the source.\<close>

definition check_length :: "Evaluator \<Rightarrow> string \<Rightarrow> EvaluationResult \<Rightarrow> EvaluationResult" where
  "check_length e prompt result =
     (if length prompt < minimumLength e
      then result\<lparr>DetectedIssues := DetectedIssues result @
               [''Prompt is too short and lacks context''],
             Confidence := f64_sub (Confidence result) (f64_lit 2 10)\<rparr>
      else result)"

definition check_words :: "Evaluator \<Rightarrow> string \<Rightarrow> EvaluationResult \<Rightarrow> EvaluationResult" where
  "check_words e prompt result =
     (let words = Fields prompt
      in if length words < minimumWords e
         then result\<lparr>DetectedIssues := DetectedIssues result @
                  [''Prompt lacks sufficient detail''],
                Confidence := f64_sub (Confidence result) (f64_lit 2 10)\<rparr>
         else result)"

definition add_bonuses :: "string \<Rightarrow> EvaluationResult \<Rightarrow> EvaluationResult" where
  "add_bonuses prompt result =
     (let hasSpecificFile = (Contains prompt ''.go'' \<or> Contains prompt ''/'');
          hasFunction = (Contains prompt ''func'' \<or> Contains prompt ''()'');
          hasActionVerb = containsActionVerb prompt;
          result =
            (if hasSpecificFile
             then result\<lparr>Confidence := f64_add (Confidence result) (f64_lit 1 10)\<rparr>
             else result);
          result =
            (if hasFunction
             then result\<lparr>Confidence := f64_add (Confidence result) (f64_lit 1 10)\<rparr>
             else result)
      in if hasActionVerb
         then result\<lparr>Confidence := f64_add (Confidence result) (f64_lit 1 10)\<rparr>
         else result)"

definition clamp_confidence :: "EvaluationResult \<Rightarrow> EvaluationResult" where
  "clamp_confidence result =
     (let result =
            (if f64_less (Confidence result) (f64_lit 0 1)
             then result\<lparr>Confidence := f64_lit 0 1\<rparr> else result)
      in if f64_less (f64_lit 1 1) (Confidence result)
         then result\<lparr>Confidence := f64_lit 1 1\<rparr> else result)"

definition determine_clarity :: "Evaluator \<Rightarrow> EvaluationResult \<Rightarrow> EvaluationResult" where
  "determine_clarity e result =
     result\<lparr>IsClear := f64_le (confidenceThreshold e) (Confidence result)\<rparr>"

definition generate_feedback :: "Evaluator \<Rightarrow> string \<Rightarrow> EvaluationResult \<Rightarrow> EvaluationResult" where
  "generate_feedback e prompt result =
     (if IsClear result
      then result\<lparr>Feedback := ''Prompt is clear and actionable.'', RefinedPrompt := prompt\<rparr>
      else
        (let result = result\<lparr>Feedback :=
                 ''Prompt could be improved for clarity and specificity.''\<rparr>;
             result = result\<lparr>SuggestedRefinement :=
                 suggestRefinement e prompt (DetectedIssues result)\<rparr>
         in result\<lparr>RefinedPrompt := SuggestedRefinement result\<rparr>))"

definition Evaluate ::
  "Evaluator \<Rightarrow> (string \<times> string list) list \<Rightarrow> string \<Rightarrow> EvaluationResult" where
  "Evaluate e visit prompt0 =
     (let result = \<lparr>IsClear = False, Feedback = [], SuggestedRefinement = [],
                     Confidence = f64_lit 0 1, DetectedIssues = [], RefinedPrompt = prompt0,
                     SuggestedAgentKeywords = []\<rparr>;
          prompt = TrimSpace prompt0
      in if prompt = []
         then result\<lparr>IsClear := False,
                Feedback := ''Prompt is empty. Please provide a task description.'',
                Confidence := f64_lit 0 1\<rparr>
         else
           (let result = result\<lparr>Confidence := f64_lit 7 10\<rparr>;
                result = check_length e prompt result;
                result = check_words e prompt result;
                result = vagueness_loop (vaguenessPatterns e) prompt result;
                result = add_bonuses prompt result;
                result = clamp_confidence result;
                result = determine_clarity e result;
                result = generate_feedback e prompt result
            in result\<lparr>SuggestedAgentKeywords := ExtractKeywords visit prompt\<rparr>))"

section \<open>Package agents: the registry\<close>

record Agent =
  Name :: string
  Description :: string
  Keywords :: "string list"

text \<open>
  The registry is a Go map from names to agents and the list of names in the order of
  their registration.  \<open>Add\<close> is its only writer, so every name of \<open>order\<close> is a key of
  \<open>agents\<close>.
\<close>

record Registry =
  agents :: "string \<rightharpoonup> Agent"
  order :: "string list"

datatype error =
    EmptyAgentName
  | AlreadyRegistered string
  | AgentNotFound string
  | ContextCanceled
  | ContextDeadlineExceeded
  | InvocationError string

definition NewRegistry :: Registry where
  "NewRegistry = \<lparr>agents = Map.empty, order = []\<rparr>"

definition Add :: "Registry \<Rightarrow> Agent \<Rightarrow> Registry \<times> error option" where
  "Add r agent =
     (if Name agent = [] then (r, Some EmptyAgentName)
      else if agents r (Name agent) \<noteq> None then (r, Some (AlreadyRegistered (Name agent)))
      else (r\<lparr>agents := (agents r)(Name agent \<mapsto> agent), order := order r @ [Name agent]\<rparr>,
            None))"

definition Get :: "Registry \<Rightarrow> string \<Rightarrow> Agent option" where
  "Get r name = agents r name"

fun all_loop :: "Registry \<Rightarrow> string list \<Rightarrow> Agent list" where
  "all_loop r [] = []"
| "all_loop r (name # names) =
     (case agents r name of None \<Rightarrow> all_loop r names | Some a \<Rightarrow> a # all_loop r names)"

definition All :: "Registry \<Rightarrow> Agent list" where
  "All r = all_loop r (order r)"

text \<open>
  \<open>keywordSet\<close> is a Go \<open>map[string]bool\<close> whose values are all \<open>true\<close>: it is modelled as
  the list of its keys, without repetition.
\<close>

fun make_keywordSet :: "string list \<Rightarrow> string list \<Rightarrow> string list" where
  "make_keywordSet [] keywordSet = keywordSet"
| "make_keywordSet (kw # kws) keywordSet =
     make_keywordSet kws (if kw \<in> set keywordSet then keywordSet else keywordSet @ [kw])"

fun score_loop :: "string list \<Rightarrow> string list \<Rightarrow> float64 \<Rightarrow> float64" where
  "score_loop [] searchKeywords score = score"
| "score_loop (kw # kws) searchKeywords score =
     score_loop kws searchKeywords
       (if kw \<in> set searchKeywords then f64_add score (f64_lit 2 1) else score)"

definition calculateMatchScore :: "string list \<Rightarrow> string list \<Rightarrow> float64" where
  "calculateMatchScore agentKeywords searchKeywords =
     (if length agentKeywords = 0 \<or> length searchKeywords = 0 then f64_lit 0 1
      else score_loop agentKeywords searchKeywords (f64_lit 0 1))"

type_synonym scored = "Agent \<times> float64"

fun scoring_loop :: "Agent list \<Rightarrow> string list \<Rightarrow> scored list \<Rightarrow> scored list" where
  "scoring_loop [] keywordSet scores = scores"
| "scoring_loop (agent # rest) keywordSet scores =
     (let score = calculateMatchScore (Keywords agent) keywordSet
      in scoring_loop rest keywordSet
           (if f64_less (f64_lit 0 1) score then scores @ [(agent, score)] else scores))"

text \<open>The two nested loops that sort \<open>scores\<close> in place.\<close>

function sort_inner :: "nat \<Rightarrow> nat \<Rightarrow> scored list \<Rightarrow> scored list" where
  "sort_inner i j scores =
     (if j < length scores
      then sort_inner i (j + 1)
             (if f64_less (snd (scores ! i)) (snd (scores ! j))
              then scores[i := scores ! j, j := scores ! i] else scores)
      else scores)"
  by pat_completeness auto
termination
  by (relation "measure (\<lambda>(i, j, scores). length scores - j)") auto

declare sort_inner.simps [simp del]

function sort_outer :: "nat \<Rightarrow> scored list \<Rightarrow> scored list" where
  "sort_outer i scores =
     (if i < length scores then sort_outer (i + 1) (sort_inner i (i + 1) scores) else scores)"
  by pat_completeness auto
termination
proof (relation "measure (\<lambda>(i, scores). length scores - i)")
  show "wf (measure (\<lambda>(i, scores). length scores - i))"
    by simp
next
  fix i :: nat and scores :: "scored list"
  assume less: "i < length scores"
  have len: "length (sort_inner a b xs) = length xs" for a b xs
  proof (induction a b xs rule: sort_inner.induct)
    case (1 a b xs)
    show ?case
    proof (cases "b < length xs")
      case True
      with "1.IH" show ?thesis
        by (subst sort_inner.simps) simp
    next
      case False
      then show ?thesis
        by (subst sort_inner.simps) simp
    qed
  qed
  from less show "((i + 1, sort_inner i (i + 1) scores), (i, scores))
      \<in> measure (\<lambda>(i, scores). length scores - i)"
    by (simp add: len)
qed

declare sort_outer.simps [simp del]

definition MatchKeywords :: "Registry \<Rightarrow> string list \<Rightarrow> Agent list" where
  "MatchKeywords r keywords =
     (let keywordSet = make_keywordSet keywords [];
          scores = scoring_loop (All r) keywordSet [];
          scores = sort_outer 0 scores
      in map fst scores)"

section \<open>Package cli: the invoker\<close>

record InvocationResult =
  Agent :: string
  Success :: bool
  Output :: "string option"
  Error :: string
  ExitCode :: int
  Duration :: nat
  Timestamp :: nat

record Invoker =
  timeout :: nat
  retries :: nat

text \<open>
  What running the external command gives: the error of \<open>cmd.Run\<close> (none, an
  \<open>*exec.ExitError\<close> with its exit code, or another error, each with its message), the
  two captured streams, whether the context's deadline had passed when the command
  returned, and the two clock readings.  \<open>Output\<close> is a \<open>json.RawMessage\<close>; \<open>None\<close> is the
  nil slice.
\<close>

datatype run_error = ExitError int string | OtherError string

fun run_error_text :: "run_error \<Rightarrow> string" where
  "run_error_text (ExitError code msg) = msg"
| "run_error_text (OtherError msg) = msg"

record cmd_run =
  run_err :: "run_error option"
  stdout :: string
  stderr :: string
  deadline_exceeded :: bool
  start :: nat
  elapsed :: nat

text \<open>
  The standard library enters through two functions: \<open>json_valid\<close>, whether
  \<open>json.Unmarshal\<close> accepts a text, and \<open>show_duration\<close>, how \<open>%v\<close> prints a duration.
  When the text is accepted, the \<open>json.RawMessage\<close> receives the JSON value itself, that
  is the text without the JSON white space (blank, tab, line feed, carriage return) around
  it.
\<close>

record stdlib =
  json_valid :: "string \<Rightarrow> bool"
  show_duration :: "nat \<Rightarrow> string"

definition isJSONSpace :: "char \<Rightarrow> bool" where
  "isJSONSpace c = (c \<in> set [CHR '' '', CHR 0x09, CHR 0x0A, CHR 0x0D])"

definition json_value :: "string \<Rightarrow> string" where
  "json_value text = rev (dropWhile isJSONSpace (rev (dropWhile isJSONSpace text)))"

definition InvokeAgent ::
  "stdlib \<Rightarrow> Invoker \<Rightarrow> cmd_run \<Rightarrow> string \<Rightarrow> string \<Rightarrow> InvocationResult \<times> error option" where
  "InvokeAgent lib i run agentName prompt =
     (let result = \<lparr>Agent = agentName, Success = False, Output = None, Error = [],
                     ExitCode = 0, Duration = 0, Timestamp = start run\<rparr>;
          result = result\<lparr>Duration := elapsed run\<rparr>;
          result =
            (case run_err run of
               Some (ExitError code msg) \<Rightarrow> result\<lparr>ExitCode := code\<rparr>
             | _ \<Rightarrow> result);
          stdoutStr = stdout run;
          result =
            (if stdoutStr \<noteq> []
             then (if json_valid lib stdoutStr
                   then result\<lparr>Output := Some (json_value stdoutStr), Success := True\<rparr>
                   else result\<lparr>Output := Some ([CHR 0x22] @ TrimSpace stdoutStr @ [CHR 0x22]),
                          Success := True\<rparr>)
             else result);
          result =
            (case run_err run of
               Some err \<Rightarrow>
                 result\<lparr>Error :=
                     (if deadline_exceeded run
                      then ''agent invocation timed out after '' @ show_duration lib (timeout i)
                      else if stderr run \<noteq> [] then stderr run
                      else run_error_text err),
                   Success := False\<rparr>
             | None \<Rightarrow> result)
      in (result, None))"

section \<open>Package orchestrator\<close>

record ContextState =
  OriginalPrompt :: string
  RefinedPrompt :: string
  EvaluationFeedback :: EvaluationResult
  AgentResults :: "InvocationResult list"
  FinalOutput :: string
  SelectedAgents :: "string list"
  SelectionRationale :: string
  TotalDuration :: int

record Orchestrator =
  registry :: Registry
  invoker :: Invoker
  evaluator :: Evaluator

text \<open>
  The surroundings of one request.  The context is what \<open>ctx.Err()\<close> reports each time
  the chain looks at \<open>ctx.Done()\<close>: \<open>ctx k\<close> is the report at the step boundary reached
  with \<open>k\<close> results recorded.  The call \<open>o.invoker.InvokeAgent(ctx, name, prompt)\<close> is the
  argument \<open>invoke\<close>; it is given the number of commands run before, so that its answer
  may depend on the moment.  The commands run are recorded, in order, as pairs of agent
  name and prompt.
\<close>

datatype ctx_state = Active | Canceled | DeadlineExceeded

fun ctx_Err :: "ctx_state \<Rightarrow> error option" where
  "ctx_Err Active = None"
| "ctx_Err Canceled = Some ContextCanceled"
| "ctx_Err DeadlineExceeded = Some ContextDeadlineExceeded"

type_synonym go_context = "nat \<Rightarrow> ctx_state"

type_synonym invoke_fn = "nat \<Rightarrow> string \<Rightarrow> string \<Rightarrow> InvocationResult \<times> error option"

type_synonym calls = "(string \<times> string) list"

text \<open>In the program \<open>invoke\<close> is the invoker of package cli, run on the commands' outcomes.\<close>

definition cli_invoke ::
  "stdlib \<Rightarrow> Invoker \<Rightarrow> (nat \<Rightarrow> string \<Rightarrow> string \<Rightarrow> cmd_run) \<Rightarrow> invoke_fn" where
  "cli_invoke lib i runs n agentName prompt = InvokeAgent lib i (runs n agentName prompt) agentName prompt"

text \<open>The verb \<open>%q\<close>, for names of printable ASCII characters.\<close>

fun quote_chars :: "string \<Rightarrow> string" where
  "quote_chars [] = []"
| "quote_chars (c # cs) =
     (if c = CHR 0x22 \<or> c = CHR 0x5C then CHR 0x5C # c # quote_chars cs else c # quote_chars cs)"

definition quote :: "string \<Rightarrow> string" where
  "quote s = [CHR 0x22] @ quote_chars s @ [CHR 0x22]"

fun error_text :: "error \<Rightarrow> string" where
  "error_text EmptyAgentName = ''agent name cannot be empty''"
| "error_text (AlreadyRegistered name) = ''agent '' @ quote name @ '' already registered''"
| "error_text (AgentNotFound name) = ''agent '' @ quote name @ '' not found''"
| "error_text ContextCanceled = ''context canceled''"
| "error_text ContextDeadlineExceeded = ''context deadline exceeded''"
| "error_text (InvocationError msg) = msg"

definition output_text :: "string option \<Rightarrow> string" where
  "output_text out = (case out of None \<Rightarrow> [] | Some bytes \<Rightarrow> bytes)"

fun previous_loop :: "nat \<Rightarrow> InvocationResult list \<Rightarrow> string \<Rightarrow> string" where
  "previous_loop i [] agentPrompt = agentPrompt"
| "previous_loop i (prevResult # rest) agentPrompt =
     previous_loop (i + 1) rest
       (agentPrompt @ [CHR 0x0A] @ ''- Agent '' @ itoa (i + 1) @ '' ('' @ Agent prevResult @ ''): ''
          @ output_text (Output prevResult))"

definition buildAgentPrompt :: "string \<Rightarrow> Agent \<Rightarrow> ContextState \<Rightarrow> string" where
  "buildAgentPrompt basePrompt agent contextState =
     (let agentPrompt = basePrompt;
          agentPrompt = agentPrompt @ [CHR 0x0A, CHR 0x0A] @ ''[Agent Context: You are the ''
            @ Name agent @ ''. '' @ Description agent @ '']'';
          agentPrompt =
            (if 0 < length (AgentResults contextState)
             then previous_loop 0 (AgentResults contextState)
                    (agentPrompt @ [CHR 0x0A, CHR 0x0A] @ ''[Previous Agent Results:]'')
                  @ [CHR 0x0A] @ ''[Consider these results in your response]''
             else agentPrompt)
      in agentPrompt)"

text \<open>The check mark and the cross of the report, in UTF-8.\<close>

definition check_mark :: string where
  "check_mark = [CHR 0xE2, CHR 0x9C, CHR 0x93]"

definition cross_mark :: string where
  "cross_mark = [CHR 0xE2, CHR 0x9C, CHR 0x97]"

fun blocks_loop :: "nat \<Rightarrow> InvocationResult list \<Rightarrow> string \<Rightarrow> string" where
  "blocks_loop i [] output = output"
| "blocks_loop i (result # rest) output =
     (let output = output @ ''## Agent '' @ itoa (i + 1) @ '': '' @ Agent result @ [CHR 0x0A];
          output =
            (if Success result
             then (let output = output @ ''Status: '' @ check_mark @ '' Success'' @ [CHR 0x0A]
                   in if Output result \<noteq> None
                      then output @ ''Output:'' @ [CHR 0x0A] @ output_text (Output result)
                             @ [CHR 0x0A, CHR 0x0A]
                      else output)
             else (let output = output @ ''Status: '' @ cross_mark @ '' Failed'' @ [CHR 0x0A]
                   in if Error result \<noteq> []
                      then output @ ''Error: '' @ Error result @ [CHR 0x0A, CHR 0x0A]
                      else output))
      in blocks_loop (i + 1) rest output)"

fun count_loop :: "InvocationResult list \<Rightarrow> nat \<Rightarrow> nat" where
  "count_loop [] successCount = successCount"
| "count_loop (r # rest) successCount =
     count_loop rest (if Success r then successCount + 1 else successCount)"

definition synthesizeOutput :: "ContextState \<Rightarrow> InvocationResult list \<Rightarrow> string" where
  "synthesizeOutput contextState results =
     (let output = ''=== Agent Chain Results ==='' @ [CHR 0x0A, CHR 0x0A];
          output = blocks_loop 0 results output;
          output = output @ [CHR 0x0A] @ ''=== Summary ==='' @ [CHR 0x0A];
          output = output @ ''Total Agents Executed: '' @ itoa (length results) @ [CHR 0x0A];
          successCount = count_loop results 0
      in output @ ''Successful Executions: '' @ itoa successCount @ [CHR 0x0A])"

text \<open>
  Two blocks of the loop of \<open>executeChain\<close>: the result recorded for a call (the failed
  result written in place of an error of the call, or the result the call returned) and
  the growth of the forwarded context.
\<close>

definition record_outcome :: "Agent \<Rightarrow> InvocationResult \<times> error option \<Rightarrow> InvocationResult" where
  "record_outcome agent answer =
     (case snd answer of
        Some err \<Rightarrow>
          \<lparr>Agent = Name agent, Success = False, Output = None, Error = error_text err,
             ExitCode = 1, Duration = 0, Timestamp = 0\<rparr>
      | None \<Rightarrow> fst answer)"

definition forwarded :: "InvocationResult \<Rightarrow> bool" where
  "forwarded result = (Success result \<and> Output result \<noteq> None)"

definition forward_result :: "InvocationResult \<Rightarrow> ContextState \<Rightarrow> ContextState" where
  "forward_result result contextState =
     (if forwarded result
      then contextState\<lparr>AgentResults := AgentResults contextState @ [result]\<rparr>
      else contextState)"

fun chain_loop ::
  "invoke_fn \<Rightarrow> go_context \<Rightarrow> string \<Rightarrow> Agent list \<Rightarrow> InvocationResult list \<Rightarrow> ContextState \<Rightarrow> calls
     \<Rightarrow> (string \<times> InvocationResult list \<times> error option) \<times> calls" where
  "chain_loop invoke ctx prompt [] results contextState cmds =
     ((synthesizeOutput contextState results, results, None), cmds)"
| "chain_loop invoke ctx prompt (agent # rest) results contextState cmds =
     (case ctx_Err (ctx (length results)) of
        Some err \<Rightarrow> (([], results, Some err), cmds)
      | None \<Rightarrow>
          (let agentPrompt = buildAgentPrompt prompt agent contextState;
               answer = invoke (length cmds) (Name agent) agentPrompt;
               cmds = cmds @ [(Name agent, agentPrompt)];
               result = record_outcome agent answer;
               results = results @ [result];
               contextState = forward_result result contextState
           in chain_loop invoke ctx prompt rest results contextState cmds))"

definition executeChain ::
  "invoke_fn \<Rightarrow> go_context \<Rightarrow> string \<Rightarrow> Agent list \<Rightarrow> ContextState \<Rightarrow> calls
     \<Rightarrow> (string \<times> InvocationResult list \<times> error option) \<times> calls" where
  "executeChain invoke ctx prompt agentList initialContext cmds =
     chain_loop invoke ctx prompt agentList [] initialContext cmds"

definition selectAgents :: "Orchestrator \<Rightarrow> string list \<Rightarrow> nat \<Rightarrow> Agent list" where
  "selectAgents o' keywords maxCount =
     (let matched = MatchKeywords (registry o') keywords
      in if maxCount < length matched then take maxCount matched else matched)"

definition selectTopAgents :: "Orchestrator \<Rightarrow> nat \<Rightarrow> Agent list" where
  "selectTopAgents o' count =
     (let agentList = All (registry o')
      in if count < length agentList then take count agentList else agentList)"

definition extractKeywords :: "(string \<times> string list) list \<Rightarrow> string \<Rightarrow> string list" where
  "extractKeywords visit p = ExtractKeywords visit p"

definition agentNames :: "Agent list \<Rightarrow> string list" where
  "agentNames agentList = map Name agentList"

definition buildRationale :: "string list \<Rightarrow> Agent list \<Rightarrow> string" where
  "buildRationale keywords selectedAgents =
     (if length selectedAgents = 0 then ''No agents matched the prompt keywords''
      else ''Selected based on keywords: '' @ Join keywords '', '' @ ''. '' @ ''Agents: ''
             @ Join (map Name selectedAgents) '', '')"

definition empty_EvaluationResult :: EvaluationResult where
  "empty_EvaluationResult =
     \<lparr>IsClear = False, Feedback = [], SuggestedRefinement = [], Confidence = f64_lit 0 1,
      DetectedIssues = [], RefinedPrompt = [], SuggestedAgentKeywords = []\<rparr>"

definition empty_ContextState :: ContextState where
  "empty_ContextState =
     \<lparr>OriginalPrompt = [], RefinedPrompt = [], EvaluationFeedback = empty_EvaluationResult,
      AgentResults = [], FinalOutput = [], SelectedAgents = [], SelectionRationale = [],
      TotalDuration = 0\<rparr>"

text \<open>
  \<open>RunWithAuto\<close> ranges over \<open>domainKeywords\<close> twice, inside \<open>Evaluate\<close> and inside
  \<open>extractKeywords\<close>; \<open>visit1\<close> and \<open>visit2\<close> are the orders of the two traversals.
\<close>

definition RunWithAuto ::
  "Orchestrator \<Rightarrow> invoke_fn \<Rightarrow> go_context \<Rightarrow> (string \<times> string list) list
     \<Rightarrow> (string \<times> string list) list \<Rightarrow> string \<Rightarrow> calls
     \<Rightarrow> (ContextState \<times> error option) \<times> calls" where
  "RunWithAuto o' invoke ctx visit1 visit2 userPrompt cmds =
     (let state = empty_ContextState\<lparr>OriginalPrompt := userPrompt, AgentResults := []\<rparr>;
          evaluation = Evaluate (evaluator o') visit1 userPrompt;
          state = state\<lparr>EvaluationFeedback := evaluation\<rparr>;
          refinedPrompt = EvaluationResult.RefinedPrompt evaluation;
          state = state\<lparr>RefinedPrompt := refinedPrompt\<rparr>;
          keywords = extractKeywords visit2 refinedPrompt;
          selectedAgents = selectAgents o' keywords 2;
          selectedAgents =
            (if length selectedAgents = 0 then selectTopAgents o' 3 else selectedAgents);
          state = state\<lparr>SelectedAgents := agentNames selectedAgents\<rparr>;
          state = state\<lparr>SelectionRationale := buildRationale keywords selectedAgents\<rparr>;
          ran = executeChain invoke ctx refinedPrompt selectedAgents empty_ContextState cmds
      in case ran of
           ((finalOutput, results, Some err), cmds') \<Rightarrow> ((state, Some err), cmds')
         | ((finalOutput, results, None), cmds') \<Rightarrow>
             ((state\<lparr>AgentResults := results, FinalOutput := finalOutput\<rparr>, None), cmds'))"

text \<open>The loop of \<open>RunWithExplicitChain\<close> that looks the names up; it returns at the first
  name the registry does not know.\<close>

fun lookup_loop :: "Orchestrator \<Rightarrow> string list \<Rightarrow> Agent list \<Rightarrow> error + Agent list" where
  "lookup_loop o' [] selectedAgents = Inr selectedAgents"
| "lookup_loop o' (name # names) selectedAgents =
     (case Get (registry o') name of
        None \<Rightarrow> Inl (AgentNotFound name)
      | Some agent \<Rightarrow> lookup_loop o' names (selectedAgents @ [agent]))"

definition RunWithExplicitChain ::
  "Orchestrator \<Rightarrow> invoke_fn \<Rightarrow> go_context \<Rightarrow> (string \<times> string list) list \<Rightarrow> string
     \<Rightarrow> string list \<Rightarrow> calls \<Rightarrow> (ContextState \<times> error option) \<times> calls" where
  "RunWithExplicitChain o' invoke ctx visit userPrompt names cmds =
     (let state = empty_ContextState\<lparr>OriginalPrompt := userPrompt, RefinedPrompt := userPrompt,
                    SelectedAgents := names, AgentResults := []\<rparr>
      in case lookup_loop o' names [] of
           Inl err \<Rightarrow> ((state, Some err), cmds)
         | Inr selectedAgents \<Rightarrow>
             (let evaluation = Evaluate (evaluator o') visit userPrompt;
                  state = state\<lparr>EvaluationFeedback := evaluation\<rparr>;
                  ran = executeChain invoke ctx userPrompt selectedAgents empty_ContextState cmds
              in case ran of
                   ((finalOutput, results, Some err), cmds') \<Rightarrow> ((state, Some err), cmds')
                 | ((finalOutput, results, None), cmds') \<Rightarrow>
                     ((state\<lparr>AgentResults := results, FinalOutput := finalOutput\<rparr>, None),
                      cmds')))"

definition NewOrchestrator :: "Registry \<Rightarrow> Invoker \<Rightarrow> Orchestrator" where
  "NewOrchestrator reg ivk =
     \<lparr>registry = reg, invoker = ivk, evaluator = NewEvaluator\<rparr>"

definition ListAgents :: "Orchestrator \<Rightarrow> Agent list" where
  "ListAgents o' = All (registry o')"

section \<open>The augmented prompt, in the specification's words\<close>

text \<open>
  The specification describes the prompt of a step as the base prompt, an identity
  preamble and, only if at least one prior outcome was successful, a block that lists the
  prior successful outcomes in the order of their execution, followed by an instruction
  to consider them.  These definitions follow that description; \<open>prior\<close> is the list of
  all outcomes recorded before the step.
\<close>

definition identity_preamble :: "Agent \<Rightarrow> string" where
  "identity_preamble agent =
     [CHR 0x0A, CHR 0x0A] @ ''[Agent Context: You are the '' @ Name agent @ ''. ''
       @ Description agent @ '']''"

definition forwarded_entry :: "nat \<times> InvocationResult \<Rightarrow> string" where
  "forwarded_entry e =
     [CHR 0x0A] @ ''- Agent '' @ itoa (fst e + 1) @ '' ('' @ Agent (snd e) @ ''): ''
       @ output_text (Output (snd e))"

definition forwarded_block :: "InvocationResult list \<Rightarrow> string" where
  "forwarded_block successes =
     [CHR 0x0A, CHR 0x0A] @ ''[Previous Agent Results:]''
       @ concat (map forwarded_entry (enumerate 0 successes))
       @ [CHR 0x0A] @ ''[Consider these results in your response]''"

definition augmented_prompt :: "string \<Rightarrow> Agent \<Rightarrow> InvocationResult list \<Rightarrow> string" where
  "augmented_prompt basePrompt agent prior =
     basePrompt @ identity_preamble agent
       @ (if \<exists>r \<in> set prior. Success r then forwarded_block (filter Success prior) else [])"

section \<open>The confidence score, in the specification's words\<close>

text \<open>
  The specification gives the confidence of a non-empty trimmed prompt as 0.7, less 0.2
  if it is shorter than 10 characters, less 0.2 if it has fewer than 2 words, less 0.2 if
  some vagueness pattern matches (once, however many match), plus 0.1 for each of a path
  or file-extension token, a function-call token and an action verb, clamped to the
  interval from 0 to 1.  \<open>confidence_table k m\<close> is the score after \<open>k\<close> penalties and \<open>m\<close>
  bonuses.
\<close>

definition is_vague :: "string \<Rightarrow> bool" where
  "is_vague prompt =
     (\<exists>pattern \<in> set (vaguenessPatterns NewEvaluator). MatchString pattern (ToLower prompt))"

definition has_path_token :: "string \<Rightarrow> bool" where
  "has_path_token prompt = (Contains prompt ''.go'' \<or> Contains prompt ''/'')"

definition has_call_token :: "string \<Rightarrow> bool" where
  "has_call_token prompt = (Contains prompt ''func'' \<or> Contains prompt ''()'')"

definition has_action_verb :: "string \<Rightarrow> bool" where
  "has_action_verb prompt = (\<exists>verb \<in> set actions. Contains (ToLower prompt) verb)"

definition penalty :: "bool \<Rightarrow> float64 \<Rightarrow> float64" where
  "penalty applies c = (if applies then f64_sub c (f64_lit 2 10) else c)"

definition bonus :: "bool \<Rightarrow> float64 \<Rightarrow> float64" where
  "bonus applies c = (if applies then f64_add c (f64_lit 1 10) else c)"

definition clamp01 :: "float64 \<Rightarrow> float64" where
  "clamp01 c =
     (if f64_less c (f64_lit 0 1) then f64_lit 0 1
      else if f64_less (f64_lit 1 1) c then f64_lit 1 1 else c)"

definition spec_confidence :: "string \<Rightarrow> float64" where
  "spec_confidence trimmed =
     clamp01
       (bonus (has_action_verb trimmed)
          (bonus (has_call_token trimmed)
             (bonus (has_path_token trimmed)
                (penalty (is_vague trimmed)
                   (penalty (length (Fields trimmed) < 2)
                      (penalty (length trimmed < 10) (f64_lit 7 10)))))))"

definition spec_issues :: "string \<Rightarrow> string list" where
  "spec_issues trimmed =
     (if length trimmed < 10 then [''Prompt is too short and lacks context''] else [])
     @ (if length (Fields trimmed) < 2 then [''Prompt lacks sufficient detail''] else [])
     @ (if is_vague trimmed
        then [''Prompt uses vague terms (e.g., 'it', 'this', 'module')''] else [])"

definition penalty_count :: "string \<Rightarrow> nat" where
  "penalty_count trimmed =
     (if length trimmed < 10 then 1 else 0) + (if length (Fields trimmed) < 2 then 1 else 0)
       + (if is_vague trimmed then 1 else 0)"

definition bonus_count :: "string \<Rightarrow> nat" where
  "bonus_count trimmed =
     (if has_path_token trimmed then 1 else 0) + (if has_call_token trimmed then 1 else 0)
       + (if has_action_verb trimmed then 1 else 0)"

definition confidence_table :: "nat \<Rightarrow> nat \<Rightarrow> float64" where
  "confidence_table k m =
     clamp01 ((bonus True ^^ m) ((penalty True ^^ k) (f64_lit 7 10)))"

section \<open>Sample data\<close>

text \<open>
  A registry of three agents, added in the order a, b, c; a command that fails the first
  time it is run and prints \<open>done\<close> afterwards; a context that is never cancelled and
  one that is cancelled once the first result is recorded.
\<close>

definition agent_a :: Agent where
  "agent_a = \<lparr>Name = ''a'', Description = ''first'', Keywords = [''x'']\<rparr>"

definition agent_b :: Agent where
  "agent_b = \<lparr>Name = ''b'', Description = ''second'', Keywords = [''x'']\<rparr>"

definition agent_c :: Agent where
  "agent_c = \<lparr>Name = ''c'', Description = ''third'', Keywords = [''x'', ''y'']\<rparr>"

definition registry_abc :: Registry where
  "registry_abc = fst (Add (fst (Add (fst (Add NewRegistry agent_a)) agent_b)) agent_c)"

definition sample_lib :: stdlib where
  "sample_lib = \<lparr>json_valid = (\<lambda>text. False), show_duration = (\<lambda>d. ''30s'')\<rparr>"

definition sample_invoker :: Invoker where
  "sample_invoker = \<lparr>timeout = 30, retries = 1\<rparr>"

definition failed_run :: cmd_run where
  "failed_run =
     \<lparr>run_err = Some (OtherError ''exec: copilot: executable file not found in $PATH''),
      stdout = [], stderr = [], deadline_exceeded = False, start = 0, elapsed = 1\<rparr>"

definition good_run :: cmd_run where
  "good_run =
     \<lparr>run_err = None, stdout = ''done'', stderr = [], deadline_exceeded = False,
      start = 2, elapsed = 5\<rparr>"

definition fail_then_succeed :: "nat \<Rightarrow> string \<Rightarrow> string \<Rightarrow> cmd_run" where
  "fail_then_succeed n agentName prompt = (if n = 0 then failed_run else good_run)"

definition sample_invoke :: invoke_fn where
  "sample_invoke = cli_invoke sample_lib sample_invoker fail_then_succeed"

definition never_done :: go_context where
  "never_done k = Active"

definition done_after_one :: go_context where
  "done_after_one k = (if k < 1 then Active else Canceled)"

definition orchestrator_abc :: Orchestrator where
  "orchestrator_abc = NewOrchestrator registry_abc sample_invoker"

section \<open>The invoker never returns an error\<close>

text \<open>
  Claim C10.  \<open>InvokeAgent\<close> returns a nil error whatever the command did.  When
  \<open>cmd.Run\<close> failed, also when the command could not be started at all, the failure is
  in the result: \<open>Success\<close> is false and \<open>Error\<close> holds the time-out message, the
  standard error text or the error's own message.  So the call the chain makes through
  this invoker never has an error for the chain to convert.
\<close>

theorem InvokeAgent_error_is_nil:
  "snd (InvokeAgent lib i run agentName prompt) = None \<and>
   snd (cli_invoke lib i runs n agentName prompt) = None \<and>
   (\<forall>err. run_err run = Some err \<longrightarrow>
      \<not> Success (fst (InvokeAgent lib i run agentName prompt)) \<and>
      Error (fst (InvokeAgent lib i run agentName prompt)) =
        (if deadline_exceeded run
         then ''agent invocation timed out after '' @ show_duration lib (timeout i)
         else if stderr run \<noteq> [] then stderr run else run_error_text err))"
  by (auto simp: InvokeAgent_def cli_invoke_def Let_def split: option.splits run_error.splits)

theorem InvokeAgent_error_is_nil_witness:
  "run_err failed_run = Some (OtherError ''exec: copilot: executable file not found in $PATH'') \<and>
   snd (InvokeAgent sample_lib sample_invoker failed_run ''a'' ''p'') = None \<and>
   \<not> Success (fst (InvokeAgent sample_lib sample_invoker failed_run ''a'' ''p'')) \<and>
   Error (fst (InvokeAgent sample_lib sample_invoker failed_run ''a'' ''p'')) =
     ''exec: copilot: executable file not found in $PATH''"
proof -
  have e: "run_err failed_run = Some (OtherError ''exec: copilot: executable file not found in $PATH'')"
    by (simp add: failed_run_def)
  have d: "\<not> deadline_exceeded failed_run" "stderr failed_run = []"
    by (simp_all add: failed_run_def)
  from InvokeAgent_error_is_nil [of sample_lib sample_invoker failed_run "''a''" "''p''" fail_then_succeed 0] e d
  show ?thesis by simp
qed

section \<open>An explicit chain with an unknown name\<close>

lemma lookup_loop_unknown:
  "\<exists>name \<in> set names. Get (registry o') name = None \<Longrightarrow>
   \<exists>name \<in> set names. Get (registry o') name = None \<and>
     lookup_loop o' names acc = Inl (AgentNotFound name)"
proof (induction names arbitrary: acc)
  case Nil
  then show ?case by simp
next
  case (Cons n ns)
  show ?case
  proof (cases "Get (registry o') n")
    case None
    then show ?thesis by auto
  next
    case (Some a)
    with Cons.prems have "\<exists>name \<in> set ns. Get (registry o') name = None"
      by auto
    from Cons.IH [OF this, of "acc @ [a]"] Some show ?thesis
      by auto
  qed
qed

text \<open>
  Claim C6.  When some name of the list is not in the registry, \<open>RunWithExplicitChain\<close>
  returns the not-found error for such a name and runs no command at all: the record of
  commands is the one it was given, also when other names of the list do resolve, and the
  report holds no result.
\<close>

theorem RunWithExplicitChain_unknown_name:
  assumes "\<exists>name \<in> set names. Get (registry o') name = None"
  shows "\<exists>name \<in> set names. Get (registry o') name = None \<and>
           snd (fst (RunWithExplicitChain o' invoke ctx visit userPrompt names cmds))
             = Some (AgentNotFound name) \<and>
           snd (RunWithExplicitChain o' invoke ctx visit userPrompt names cmds) = cmds \<and>
           AgentResults (fst (fst (RunWithExplicitChain o' invoke ctx visit userPrompt names cmds)))
             = []"
proof -
  from lookup_loop_unknown [OF assms, of "[]"]
  obtain name where n: "name \<in> set names" "Get (registry o') name = None"
      "lookup_loop o' names [] = Inl (AgentNotFound name)"
    by blast
  then show ?thesis
    by (auto simp: RunWithExplicitChain_def Let_def empty_ContextState_def)
qed

theorem RunWithExplicitChain_unknown_name_witness:
  "(\<exists>name \<in> set [''a'', ''unknown'']. Get (registry orchestrator_abc) name = None) \<and>
   Get (registry orchestrator_abc) ''a'' = Some agent_a \<and>
   snd (fst (RunWithExplicitChain orchestrator_abc sample_invoke never_done domainKeywords
               ''Review auth.go'' [''a'', ''unknown''] [])) = Some (AgentNotFound ''unknown'') \<and>
   snd (RunWithExplicitChain orchestrator_abc sample_invoke never_done domainKeywords
          ''Review auth.go'' [''a'', ''unknown''] []) = []"
proof -
  have a: "Get (registry orchestrator_abc) ''a'' = Some agent_a"
    by code_simp
  have u: "Get (registry orchestrator_abc) ''unknown'' = None"
    by code_simp
  have b: "Get (registry orchestrator_abc) ''a'' \<noteq> None"
    using a by simp
  have h: "\<exists>name \<in> set [''a'', ''unknown'']. Get (registry orchestrator_abc) name = None"
    using u by simp
  from RunWithExplicitChain_unknown_name [OF h, of sample_invoke never_done domainKeywords "''Review auth.go''" "[]"]
  show ?thesis using a u h b by auto
qed

section \<open>The prompt "Fix the thing"\<close>

lemma Evaluate_visit:
  "Evaluate e visit p = (Evaluate e visit' p)\<lparr>SuggestedAgentKeywords :=
      (if TrimSpace p = [] then [] else ExtractKeywords visit (TrimSpace p))\<rparr>"
  by (simp add: Evaluate_def Let_def)

lemma RunWithAuto_evaluation:
  "EvaluationFeedback (fst (fst (RunWithAuto o' invoke ctx visit1 visit2 p cmds)))
     = Evaluate (evaluator o') visit1 p \<and>
   RefinedPrompt (fst (fst (RunWithAuto o' invoke ctx visit1 visit2 p cmds)))
     = EvaluationResult.RefinedPrompt (Evaluate (evaluator o') visit1 p)"
  by (simp add: RunWithAuto_def Let_def split: prod.splits option.splits)

lemma Evaluate_fix_the_thing:
  "IsClear (Evaluate NewEvaluator domainKeywords ''Fix the thing'') = False \<and>
   Confidence (Evaluate NewEvaluator domainKeywords ''Fix the thing'') = f64_lit 6 10 \<and>
   EvaluationResult.RefinedPrompt (Evaluate NewEvaluator domainKeywords ''Fix the thing'')
     = ''Fix the thing for correctness and best practices''"
  by code_simp

lemma f64_six_tenths:
  "f64_less (f64_lit 5 10) (f64_lit 6 10) \<and> f64_less (f64_lit 6 10) (f64_lit 7 10)"
  by code_simp

text \<open>
  Claim C9, as the code has it.  For the prompt \<open>Fix the thing\<close>, \<open>RunWithAuto\<close> reports
  an evaluation that is not clear, with confidence 0.6: one penalty for the vague word and
  one bonus for the action verb \<open>fix\<close>.  That is above 0.5 and below the threshold 0.7.
  The refined prompt is the input with the qualifier \<open>for correctness and best practices\<close>
  appended, so it differs from the input.  The counterexample shows that the confidence is
  not at most 0.5.
\<close>

theorem RunWithAuto_fix_the_thing:
  "IsClear (EvaluationFeedback (fst (fst (RunWithAuto (NewOrchestrator reg ivk) invoke ctx
      visit1 visit2 ''Fix the thing'' cmds)))) = False \<and>
   Confidence (EvaluationFeedback (fst (fst (RunWithAuto (NewOrchestrator reg ivk) invoke ctx
      visit1 visit2 ''Fix the thing'' cmds)))) = f64_lit 6 10 \<and>
   f64_less (f64_lit 5 10) (f64_lit 6 10) \<and> f64_less (f64_lit 6 10) (f64_lit 7 10) \<and>
   RefinedPrompt (fst (fst (RunWithAuto (NewOrchestrator reg ivk) invoke ctx
      visit1 visit2 ''Fix the thing'' cmds))) = ''Fix the thing for correctness and best practices'' \<and>
   RefinedPrompt (fst (fst (RunWithAuto (NewOrchestrator reg ivk) invoke ctx
      visit1 visit2 ''Fix the thing'' cmds))) \<noteq> ''Fix the thing''"
proof -
  have ev: "evaluator (NewOrchestrator reg ivk) = NewEvaluator"
    by (simp add: NewOrchestrator_def)
  have vis: "Evaluate NewEvaluator visit1 ''Fix the thing''
      = (Evaluate NewEvaluator domainKeywords ''Fix the thing'')\<lparr>SuggestedAgentKeywords :=
          (if TrimSpace ''Fix the thing'' = [] then []
           else ExtractKeywords visit1 (TrimSpace ''Fix the thing''))\<rparr>"
    by (rule Evaluate_visit)
  show ?thesis
    using RunWithAuto_evaluation [of "NewOrchestrator reg ivk" invoke ctx visit1 visit2 "''Fix the thing''" cmds]
      Evaluate_fix_the_thing f64_six_tenths
    by (simp add: ev vis)
qed

theorem RunWithAuto_fix_the_thing_witness:
  "Confidence (EvaluationFeedback (fst (fst (RunWithAuto (NewOrchestrator registry_abc sample_invoker)
      sample_invoke never_done domainKeywords domainKeywords ''Fix the thing'' [])))) = f64_lit 6 10"
  using RunWithAuto_fix_the_thing [of registry_abc sample_invoker sample_invoke never_done
      domainKeywords domainKeywords "[]"]
  by simp

theorem RunWithAuto_fix_the_thing_counterexample:
  "\<not> f64_le (Confidence (EvaluationFeedback (fst (fst (RunWithAuto orchestrator_abc sample_invoke
      never_done domainKeywords domainKeywords ''Fix the thing'' [])))))
    (f64_lit 5 10)"
  by code_simp

section \<open>Ranking by keywords\<close>

text \<open>
  Claim C2.  The scores are twice the number of matching keywords and agents that score 0
  are left out, but the two nested loops that sort the scores exchange entries that are
  far apart, so agents with equal scores do not always keep their registration order.
  With a, b and c registered in this order, a and b scoring 2 and c scoring 4, the loops
  first exchange a with c: the ranking is c, b, a, and the tie between a and b comes out
  reversed.
\<close>

theorem MatchKeywords_reverses_tied_agents:
  "All registry_abc = [agent_a, agent_b, agent_c] \<and>
   calculateMatchScore (Keywords agent_a) [''x'', ''y''] = f64_lit 2 1 \<and>
   calculateMatchScore (Keywords agent_b) [''x'', ''y''] = f64_lit 2 1 \<and>
   calculateMatchScore (Keywords agent_c) [''x'', ''y''] = f64_lit 4 1 \<and>
   MatchKeywords registry_abc [''x'', ''y''] = [agent_c, agent_b, agent_a]"
  by code_simp

section \<open>Keyword extraction and the order of a map traversal\<close>

lemma remove_first_set:
  "remove_first x ys = Some zs \<Longrightarrow> set ys = insert x (set zs)"
proof (induction ys arbitrary: zs)
  case Nil
  then show ?case by simp
next
  case (Cons y ys)
  then show ?case
    by (cases "x = y") auto
qed

lemma rearrangement_set:
  "rearrangement xs ys \<Longrightarrow> set xs = set ys"
proof (induction xs arbitrary: ys)
  case Nil
  then show ?case by simp
next
  case (Cons x xs)
  then obtain zs where z: "remove_first x ys = Some zs" "rearrangement xs zs"
    by (auto split: option.splits)
  from Cons.IH [OF z(2)] remove_first_set [OF z(1)] show ?case
    by simp
qed

lemma pattern_loop_set:
  "set (pattern_loop visit promptLower acc) =
     set acc \<union>
     \<Union> {set kws | pattern kws.
          (pattern, kws) \<in> set visit \<and> MatchString (MustCompile pattern) promptLower}"
proof (induction visit promptLower acc rule: pattern_loop.induct)
  case (1 promptLower acc)
  then show ?case by simp
next
  case (2 pattern kws rest promptLower acc)
  then show ?case by (cases "MatchString (MustCompile pattern) promptLower") (simp; blast)+
qed

lemma unique_loop_set:
  "set (unique_loop kws unique) = set kws \<union> set unique"
  by (induction kws unique rule: unique_loop.induct) auto

lemma unique_loop_distinct:
  "distinct unique \<Longrightarrow> distinct (unique_loop kws unique)"
  by (induction kws unique rule: unique_loop.induct) auto

text \<open>
  Claim C3, as the code has it.  \<open>ExtractKeywords\<close> ranges over a Go map, whose order of
  traversal is not fixed.  Whatever the order, the result has no keyword twice and holds
  exactly the tags of the rules that match the lower-cased prompt, so any two calls on the
  same prompt return the same keywords; the order in which the tags of different rules
  appear follows the traversal.  The counterexample gives two traversals of the same
  four rules that return the same keywords in different orders.
\<close>

theorem ExtractKeywords_same_keywords:
  assumes "map_order visit1" and "map_order visit2"
  shows "set (ExtractKeywords visit1 prompt) = set (ExtractKeywords visit2 prompt) \<and>
         distinct (ExtractKeywords visit1 prompt) \<and>
         set (ExtractKeywords visit1 prompt) =
           \<Union> {set kws | pattern kws.
                (pattern, kws) \<in> set domainKeywords \<and>
                MatchString (MustCompile pattern) (ToLower prompt)}"
proof -
  have s: "set visit1 = set domainKeywords" "set visit2 = set domainKeywords"
    using assms by (simp_all add: map_order_def rearrangement_set)
  show ?thesis
    by (simp add: ExtractKeywords_def unique_loop_set unique_loop_distinct pattern_loop_set s)
qed

theorem ExtractKeywords_same_keywords_witness:
  "map_order domainKeywords \<and> map_order (rev domainKeywords) \<and>
   set (ExtractKeywords domainKeywords ''review the tests'')
     = set (ExtractKeywords (rev domainKeywords) ''review the tests'') \<and>
   distinct (ExtractKeywords domainKeywords ''review the tests'')"
proof -
  have a: "map_order domainKeywords" by code_simp
  have b: "map_order (rev domainKeywords)" by code_simp
  from ExtractKeywords_same_keywords [OF a b, of "''review the tests''"] a b
  show ?thesis by simp
qed

theorem ExtractKeywords_order_counterexample:
  "map_order domainKeywords \<and> map_order (rev domainKeywords) \<and>
   ExtractKeywords domainKeywords ''review the tests''
     = [''code-review'', ''quality'', ''test-generator'', ''testing''] \<and>
   ExtractKeywords (rev domainKeywords) ''review the tests''
     = [''test-generator'', ''testing'', ''code-review'', ''quality''] \<and>
   ExtractKeywords domainKeywords ''review the tests''
     \<noteq> ExtractKeywords (rev domainKeywords) ''review the tests''"
  by code_simp

section \<open>The chain executor\<close>

text \<open>
  What the loop of \<open>executeChain\<close> does, step by step: \<open>new_r\<close> are the results it
  records and \<open>new_c\<close> the commands it runs.  It stops before the first step at whose
  boundary the context reports an error, and only then.
\<close>

lemma forward_result_append:
  "(forward_result r cs)\<lparr>AgentResults := AgentResults (forward_result r cs) @ xs\<rparr>
     = cs\<lparr>AgentResults := AgentResults cs @ filter forwarded (r # xs')\<rparr>"
  if "xs = filter forwarded xs'"
  using that by (simp add: forward_result_def)

lemma chain_loop_trace:
  "\<exists>new_r new_c.
     chain_loop invoke ctx prompt al rs cs cmds =
       ((if length new_r = length al
         then synthesizeOutput (cs\<lparr>AgentResults := AgentResults cs @ filter forwarded new_r\<rparr>)
                (rs @ new_r)
         else [],
         rs @ new_r,
         if length new_r = length al then None else ctx_Err (ctx (length rs + length new_r))),
        cmds @ new_c) \<and>
     length new_c = length new_r \<and> length new_r \<le> length al \<and>
     (length new_r < length al \<longrightarrow> ctx_Err (ctx (length rs + length new_r)) \<noteq> None) \<and>
     (\<forall>k<length new_r.
        ctx_Err (ctx (length rs + k)) = None \<and>
        new_c ! k =
          (Name (al ! k),
           buildAgentPrompt prompt (al ! k)
             (cs\<lparr>AgentResults := AgentResults cs @ filter forwarded (take k new_r)\<rparr>)) \<and>
        new_r ! k =
          record_outcome (al ! k) (invoke (length cmds + k) (Name (al ! k)) (snd (new_c ! k))))"
proof (induction al arbitrary: rs cs cmds)
  case Nil
  show ?case
    by (rule exI [of _ "[]"], rule exI [of _ "[]"]) simp
next
  case (Cons a al)
  show ?case
  proof (cases "ctx_Err (ctx (length rs))")
    case (Some e)
    show ?thesis
      by (rule exI [of _ "[]"], rule exI [of _ "[]"]) (simp add: Some)
  next
    case None
    define p where "p = buildAgentPrompt prompt a cs"
    define r where "r = record_outcome a (invoke (length cmds) (Name a) p)"
    define cs' where "cs' = forward_result r cs"
    have step: "chain_loop invoke ctx prompt (a # al) rs cs cmds
        = chain_loop invoke ctx prompt al (rs @ [r]) cs' (cmds @ [(Name a, p)])"
      by (simp add: None p_def r_def cs'_def Let_def)
    from Cons.IH [of "rs @ [r]" cs' "cmds @ [(Name a, p)]"]
    obtain new_r new_c where
      eq: "chain_loop invoke ctx prompt al (rs @ [r]) cs' (cmds @ [(Name a, p)]) =
        ((if length new_r = length al
          then synthesizeOutput (cs'\<lparr>AgentResults := AgentResults cs' @ filter forwarded new_r\<rparr>)
                 ((rs @ [r]) @ new_r)
          else [],
          (rs @ [r]) @ new_r,
          if length new_r = length al then None
          else ctx_Err (ctx (length (rs @ [r]) + length new_r))),
         (cmds @ [(Name a, p)]) @ new_c)"
      and len: "length new_c = length new_r" "length new_r \<le> length al"
      and stop: "length new_r < length al \<longrightarrow>
          ctx_Err (ctx (length (rs @ [r]) + length new_r)) \<noteq> None"
      and each: "\<forall>k<length new_r.
        ctx_Err (ctx (length (rs @ [r]) + k)) = None \<and>
        new_c ! k =
          (Name (al ! k),
           buildAgentPrompt prompt (al ! k)
             (cs'\<lparr>AgentResults := AgentResults cs' @ filter forwarded (take k new_r)\<rparr>)) \<and>
        new_r ! k =
          record_outcome (al ! k)
            (invoke (length (cmds @ [(Name a, p)]) + k) (Name (al ! k)) (snd (new_c ! k)))"
      by blast
    have ctxs: "cs'\<lparr>AgentResults := AgentResults cs' @ filter forwarded xs\<rparr>
        = cs\<lparr>AgentResults := AgentResults cs @ filter forwarded (r # xs)\<rparr>" for xs
      unfolding cs'_def by (rule forward_result_append) simp
    have main: "chain_loop invoke ctx prompt (a # al) rs cs cmds =
       ((if length (r # new_r) = length (a # al)
         then synthesizeOutput
                (cs\<lparr>AgentResults := AgentResults cs @ filter forwarded (r # new_r)\<rparr>)
                (rs @ r # new_r)
         else [],
         rs @ r # new_r,
         if length (r # new_r) = length (a # al) then None
         else ctx_Err (ctx (length rs + length (r # new_r)))),
        cmds @ (Name a, p) # new_c)"
      unfolding step eq ctxs by simp
    have each': "ctx_Err (ctx (length rs + k)) = None \<and>
        ((Name a, p) # new_c) ! k =
          (Name ((a # al) ! k),
           buildAgentPrompt prompt ((a # al) ! k)
             (cs\<lparr>AgentResults := AgentResults cs @ filter forwarded (take k (r # new_r))\<rparr>)) \<and>
        (r # new_r) ! k =
          record_outcome ((a # al) ! k)
            (invoke (length cmds + k) (Name ((a # al) ! k)) (snd (((Name a, p) # new_c) ! k)))"
      if "k < length (r # new_r)" for k
    proof (cases k)
      case 0
      then show ?thesis
        by (simp add: None p_def r_def)
    next
      case (Suc j)
      with that have j: "j < length new_r" by simp
      from each [rule_format, OF j] show ?thesis
        unfolding Suc ctxs by simp
    qed
    show ?thesis
      apply (rule exI [of _ "r # new_r"], rule exI [of _ "(Name a, p) # new_c"])
      using main len stop each' by simp
  qed
qed

section \<open>Cancellation\<close>

lemma ctx_Err_None: "ctx_Err c = None \<longleftrightarrow> c = Active"
  by (cases c) simp_all

lemma ctx_Err_cases:
  "ctx_Err c = None \<or> ctx_Err c = Some ContextCanceled \<or> ctx_Err c = Some ContextDeadlineExceeded"
  by (cases c) simp_all

lemma executeChain_cancelled:
  assumes act: "\<forall>k<i. ctx k = Active" and stop: "ctx i \<noteq> Active" and i: "i < length agentList"
  shows "\<exists>results new.
           executeChain invoke ctx prompt agentList initialContext cmds
             = (([], results, ctx_Err (ctx i)), cmds @ new) \<and>
           length results = i \<and> length new = i"
proof -
  from chain_loop_trace [of invoke ctx prompt agentList "[]" initialContext cmds]
  obtain new_r new_c where
    eq: "chain_loop invoke ctx prompt agentList [] initialContext cmds =
       ((if length new_r = length agentList
         then synthesizeOutput
                (initialContext\<lparr>AgentResults := AgentResults initialContext @ filter forwarded new_r\<rparr>)
                ([] @ new_r)
         else [],
         [] @ new_r,
         if length new_r = length agentList then None
         else ctx_Err (ctx (length ([] :: InvocationResult list) + length new_r))),
        cmds @ new_c)"
    and len: "length new_c = length new_r" "length new_r \<le> length agentList"
    and halt: "length new_r < length agentList \<longrightarrow>
        ctx_Err (ctx (length ([] :: InvocationResult list) + length new_r)) \<noteq> None"
    and each: "\<forall>k<length new_r. ctx_Err (ctx (length ([] :: InvocationResult list) + k)) = None"
    by blast
  have "length new_r = i"
  proof (rule ccontr)
    assume ne: "length new_r \<noteq> i"
    show False
    proof (cases "length new_r < i")
      case True
      with i halt have "ctx_Err (ctx (length new_r)) \<noteq> None" by simp
      moreover from act True have "ctx (length new_r) = Active" by simp
      ultimately show False by simp
    next
      case False
      with ne have "i < length new_r" by simp
      with each have "ctx_Err (ctx i) = None" by simp
      with stop show False by (simp add: ctx_Err_None)
    qed
  qed
  with eq len i show ?thesis
    by (auto simp: executeChain_def)
qed

lemma RunWithAuto_chain:
  "\<exists>selected refined state.
     length (SelectedAgents (fst (fst (RunWithAuto o' invoke ctx visit1 visit2 p cmds))))
       = length selected \<and>
     FinalOutput state = [] \<and> AgentResults state = [] \<and>
     RunWithAuto o' invoke ctx visit1 visit2 p cmds =
       (case executeChain invoke ctx refined selected empty_ContextState cmds of
          ((finalOutput, results, Some err), cmds') \<Rightarrow> ((state, Some err), cmds')
        | ((finalOutput, results, None), cmds') \<Rightarrow>
            ((state\<lparr>AgentResults := results, FinalOutput := finalOutput\<rparr>, None), cmds'))"
  unfolding RunWithAuto_def Let_def
  apply (intro exI conjI)
     prefer 4
     apply (rule refl)
    apply (auto simp: agentNames_def empty_ContextState_def split: prod.splits option.splits)
  done

text \<open>
  Claim C1, as the code has it.  When the context is first seen cancelled at the boundary
  reached with \<open>i\<close> results recorded, the chain runs no further command (\<open>i\<close> commands
  have been run), does not synthesize a report (the final output it returns is empty) and
  returns the \<open>i\<close> results together with the context's error.  \<open>RunWithAuto\<close> hands that
  error to its caller, with a report whose final output is empty.  The counterexample
  shows a run in which one result was recorded before the cancellation and the report
  returned to the caller holds neither that result nor a synthesized output.
\<close>

theorem cancellation_stops_chain:
  assumes "\<forall>k<i. ctx k = Active" and "ctx i \<noteq> Active"
  shows "(ctx_Err (ctx i) = Some ContextCanceled \<or>
          ctx_Err (ctx i) = Some ContextDeadlineExceeded) \<and>
         (i < length agentList \<longrightarrow>
            (\<exists>results new.
               executeChain invoke ctx prompt agentList initialContext cmds
                 = (([], results, ctx_Err (ctx i)), cmds @ new) \<and>
               length results = i \<and> length new = i)) \<and>
         (i < length (SelectedAgents (fst (fst (RunWithAuto o' invoke ctx visit1 visit2 p cmds))))
            \<longrightarrow>
            snd (fst (RunWithAuto o' invoke ctx visit1 visit2 p cmds)) = ctx_Err (ctx i) \<and>
            FinalOutput (fst (fst (RunWithAuto o' invoke ctx visit1 visit2 p cmds))) = [] \<and>
            length (snd (RunWithAuto o' invoke ctx visit1 visit2 p cmds)) = length cmds + i)"
proof (intro conjI impI)
  from assms(2) ctx_Err_cases [of "ctx i"]
  show "ctx_Err (ctx i) = Some ContextCanceled \<or> ctx_Err (ctx i) = Some ContextDeadlineExceeded"
    by (simp add: ctx_Err_None)
next
  assume "i < length agentList"
  from executeChain_cancelled [OF assms this]
  show "\<exists>results new.
          executeChain invoke ctx prompt agentList initialContext cmds
            = (([], results, ctx_Err (ctx i)), cmds @ new) \<and>
          length results = i \<and> length new = i" .
next
  assume sel: "i < length (SelectedAgents (fst (fst (RunWithAuto o' invoke ctx visit1 visit2 p cmds))))"
  from RunWithAuto_chain [of o' invoke ctx visit1 visit2 p cmds]
  obtain selected refined state where
    n: "length (SelectedAgents (fst (fst (RunWithAuto o' invoke ctx visit1 visit2 p cmds))))
          = length selected"
    and st: "FinalOutput state = []"
    and run: "RunWithAuto o' invoke ctx visit1 visit2 p cmds =
       (case executeChain invoke ctx refined selected empty_ContextState cmds of
          ((finalOutput, results, Some err), cmds') \<Rightarrow> ((state, Some err), cmds')
        | ((finalOutput, results, None), cmds') \<Rightarrow>
            ((state\<lparr>AgentResults := results, FinalOutput := finalOutput\<rparr>, None), cmds'))"
    by blast
  from sel n have "i < length selected" by simp
  from executeChain_cancelled [OF assms this, of invoke refined empty_ContextState cmds]
  obtain results new where
    ch: "executeChain invoke ctx refined selected empty_ContextState cmds
           = (([], results, ctx_Err (ctx i)), cmds @ new)"
    and l: "length new = i"
    by blast
  from assms(2) obtain e where e: "ctx_Err (ctx i) = Some e"
    by (cases "ctx_Err (ctx i)") (simp_all add: ctx_Err_None)
  from run ch e st l
  show "snd (fst (RunWithAuto o' invoke ctx visit1 visit2 p cmds)) = ctx_Err (ctx i)"
    and "FinalOutput (fst (fst (RunWithAuto o' invoke ctx visit1 visit2 p cmds))) = []"
    and "length (snd (RunWithAuto o' invoke ctx visit1 visit2 p cmds)) = length cmds + i"
    by simp_all
qed

theorem cancellation_stops_chain_witness:
  "done_after_one 0 = Active \<and> done_after_one 1 = Canceled \<and>
   length [agent_a, agent_b] = 2 \<and>
   (\<exists>results new.
      executeChain sample_invoke done_after_one ''p'' [agent_a, agent_b] empty_ContextState []
        = (([], results, Some ContextCanceled), [] @ new) \<and>
      length results = 1 \<and> length new = 1) \<and>
   SelectedAgents (fst (fst (RunWithAuto orchestrator_abc sample_invoke done_after_one
      domainKeywords domainKeywords ''Fix the thing'' []))) = [''a'', ''b'', ''c''] \<and>
   snd (fst (RunWithAuto orchestrator_abc sample_invoke done_after_one
      domainKeywords domainKeywords ''Fix the thing'' [])) = Some ContextCanceled \<and>
   FinalOutput (fst (fst (RunWithAuto orchestrator_abc sample_invoke done_after_one
      domainKeywords domainKeywords ''Fix the thing'' []))) = [] \<and>
   length (snd (RunWithAuto orchestrator_abc sample_invoke done_after_one
      domainKeywords domainKeywords ''Fix the thing'' [])) = 1"
proof -
  have a: "\<forall>k<1. done_after_one k = Active"
    by (simp add: done_after_one_def)
  have b: "done_after_one 1 \<noteq> Active"
    by (simp add: done_after_one_def)
  have c: "done_after_one 0 = Active" "done_after_one 1 = Canceled"
    by (simp_all add: done_after_one_def)
  have s: "SelectedAgents (fst (fst (RunWithAuto orchestrator_abc sample_invoke done_after_one
      domainKeywords domainKeywords ''Fix the thing'' []))) = [''a'', ''b'', ''c'']"
    by code_simp
  from cancellation_stops_chain [OF a b, of "[agent_a, agent_b]" sample_invoke "''p''"
      empty_ContextState "[]" orchestrator_abc domainKeywords domainKeywords "''Fix the thing''"]
  show ?thesis
    using c s by simp
qed

theorem cancellation_drops_results_counterexample:
  "snd (fst (RunWithAuto orchestrator_abc sample_invoke done_after_one
      domainKeywords domainKeywords ''Fix the thing'' [])) = Some ContextCanceled \<and>
   length (fst (snd (fst (executeChain sample_invoke done_after_one
      ''Fix the thing for correctness and best practices'' [agent_a, agent_b, agent_c]
      empty_ContextState [])))) = 1 \<and>
   AgentResults (fst (fst (RunWithAuto orchestrator_abc sample_invoke done_after_one
      domainKeywords domainKeywords ''Fix the thing'' []))) = [] \<and>
   FinalOutput (fst (fst (RunWithAuto orchestrator_abc sample_invoke done_after_one
      domainKeywords domainKeywords ''Fix the thing'' []))) = []"
  by code_simp

section \<open>Failures of single steps\<close>

lemma RunWithExplicitChain_chain:
  "(\<exists>name \<in> set names.
      snd (fst (RunWithExplicitChain o' invoke ctx visit p names cmds)) = Some (AgentNotFound name)) \<or>
   (\<exists>selected state.
      RunWithExplicitChain o' invoke ctx visit p names cmds =
        (case executeChain invoke ctx p selected empty_ContextState cmds of
           ((finalOutput, results, Some err), cmds') \<Rightarrow> ((state, Some err), cmds')
         | ((finalOutput, results, None), cmds') \<Rightarrow>
             ((state\<lparr>AgentResults := results, FinalOutput := finalOutput\<rparr>, None), cmds')))"
proof (cases "lookup_loop o' names []")
  case (Inl e)
  have "\<exists>name \<in> set names. e = AgentNotFound name" if "lookup_loop o' names acc = Inl e" for acc
    using that
  proof (induction names arbitrary: acc)
    case Nil
    then show ?case by simp
  next
    case (Cons n ns)
    then show ?case
      by (cases "Get (registry o') n") auto
  qed
  from this [OF Inl] show ?thesis
    by (auto simp: RunWithExplicitChain_def Let_def Inl)
next
  case (Inr selected)
  show ?thesis
    apply (rule disjI2)
    apply (rule exI [of _ selected])
    apply (rule exI [of _ "empty_ContextState\<lparr>OriginalPrompt := p, RefinedPrompt := p,
        SelectedAgents := names, AgentResults := [],
        EvaluationFeedback := Evaluate (evaluator o') visit p\<rparr>"])
    apply (simp add: RunWithExplicitChain_def Let_def Inr split: prod.splits option.splits)
    done
qed

lemma executeChain_trace:
  "\<exists>results new.
     fst (snd (fst (executeChain invoke ctx prompt agentList initialContext cmds))) = results \<and>
     snd (executeChain invoke ctx prompt agentList initialContext cmds) = cmds @ new \<and>
     length new = length results \<and> length results \<le> length agentList \<and>
     snd (snd (fst (executeChain invoke ctx prompt agentList initialContext cmds)))
       = (if length results = length agentList then None else ctx_Err (ctx (length results))) \<and>
     (length results < length agentList \<longrightarrow> ctx_Err (ctx (length results)) \<noteq> None) \<and>
     (\<forall>k<length results.
        new ! k =
          (Name (agentList ! k),
           buildAgentPrompt prompt (agentList ! k)
             (initialContext\<lparr>AgentResults :=
                AgentResults initialContext @ filter forwarded (take k results)\<rparr>)) \<and>
        results ! k =
          record_outcome (agentList ! k)
            (invoke (length cmds + k) (Name (agentList ! k)) (snd (new ! k))))"
proof -
  from chain_loop_trace [of invoke ctx prompt agentList "[]" initialContext cmds]
  obtain new_r new_c where
    eq: "chain_loop invoke ctx prompt agentList [] initialContext cmds =
       ((if length new_r = length agentList
         then synthesizeOutput
                (initialContext\<lparr>AgentResults := AgentResults initialContext @ filter forwarded new_r\<rparr>)
                ([] @ new_r)
         else [],
         [] @ new_r,
         if length new_r = length agentList then None
         else ctx_Err (ctx (length ([] :: InvocationResult list) + length new_r))),
        cmds @ new_c)"
    and len: "length new_c = length new_r" "length new_r \<le> length agentList"
    and halt: "length new_r < length agentList \<longrightarrow>
        ctx_Err (ctx (length ([] :: InvocationResult list) + length new_r)) \<noteq> None"
    and each: "\<forall>k<length new_r.
        ctx_Err (ctx (length ([] :: InvocationResult list) + k)) = None \<and>
        new_c ! k =
          (Name (agentList ! k),
           buildAgentPrompt prompt (agentList ! k)
             (initialContext\<lparr>AgentResults :=
                AgentResults initialContext @ filter forwarded (take k new_r)\<rparr>)) \<and>
        new_r ! k =
          record_outcome (agentList ! k)
            (invoke (length cmds + k) (Name (agentList ! k)) (snd (new_c ! k)))"
    by blast
  show ?thesis
    apply (rule exI [of _ new_r], rule exI [of _ new_c])
    using eq len halt each by (simp add: executeChain_def)
qed

lemma executeChain_error:
  "snd (snd (fst (executeChain invoke ctx prompt agentList initialContext cmds))) = None \<or>
   snd (snd (fst (executeChain invoke ctx prompt agentList initialContext cmds)))
     = Some ContextCanceled \<or>
   snd (snd (fst (executeChain invoke ctx prompt agentList initialContext cmds)))
     = Some ContextDeadlineExceeded"
proof -
  from executeChain_trace [of invoke ctx prompt agentList initialContext cmds]
  obtain results :: "InvocationResult list" where
    "snd (snd (fst (executeChain invoke ctx prompt agentList initialContext cmds)))
       = (if length results = length agentList then None else ctx_Err (ctx (length results)))"
    by blast
  with ctx_Err_cases [of "ctx (length results)"] show ?thesis
    by (cases "length results = length agentList") simp_all
qed

lemma RunWithAuto_error:
  "snd (fst (RunWithAuto o' invoke ctx visit1 visit2 p cmds)) = None \<or>
   snd (fst (RunWithAuto o' invoke ctx visit1 visit2 p cmds)) = Some ContextCanceled \<or>
   snd (fst (RunWithAuto o' invoke ctx visit1 visit2 p cmds)) = Some ContextDeadlineExceeded"
proof -
  from RunWithAuto_chain [of o' invoke ctx visit1 visit2 p cmds]
  obtain selected refined state where
    run: "RunWithAuto o' invoke ctx visit1 visit2 p cmds =
       (case executeChain invoke ctx refined selected empty_ContextState cmds of
          ((finalOutput, results, Some err), cmds') \<Rightarrow> ((state, Some err), cmds')
        | ((finalOutput, results, None), cmds') \<Rightarrow>
            ((state\<lparr>AgentResults := results, FinalOutput := finalOutput\<rparr>, None), cmds'))"
    by blast
  from executeChain_error [of invoke ctx refined selected empty_ContextState cmds] run
  show ?thesis
    by (auto split: prod.splits option.splits)
qed

lemma RunWithExplicitChain_error:
  "(\<exists>name \<in> set names.
      snd (fst (RunWithExplicitChain o' invoke ctx visit p names cmds)) = Some (AgentNotFound name)) \<or>
   snd (fst (RunWithExplicitChain o' invoke ctx visit p names cmds)) = None \<or>
   snd (fst (RunWithExplicitChain o' invoke ctx visit p names cmds)) = Some ContextCanceled \<or>
   snd (fst (RunWithExplicitChain o' invoke ctx visit p names cmds)) = Some ContextDeadlineExceeded"
proof -
  from RunWithExplicitChain_chain [of names o' invoke ctx visit p cmds]
  show ?thesis
  proof
    assume "\<exists>name \<in> set names.
      snd (fst (RunWithExplicitChain o' invoke ctx visit p names cmds)) = Some (AgentNotFound name)"
    then show ?thesis by simp
  next
    assume "\<exists>selected state.
      RunWithExplicitChain o' invoke ctx visit p names cmds =
        (case executeChain invoke ctx p selected empty_ContextState cmds of
           ((finalOutput, results, Some err), cmds') \<Rightarrow> ((state, Some err), cmds')
         | ((finalOutput, results, None), cmds') \<Rightarrow>
             ((state\<lparr>AgentResults := results, FinalOutput := finalOutput\<rparr>, None), cmds'))"
    then obtain selected state where
      run: "RunWithExplicitChain o' invoke ctx visit p names cmds =
        (case executeChain invoke ctx p selected empty_ContextState cmds of
           ((finalOutput, results, Some err), cmds') \<Rightarrow> ((state, Some err), cmds')
         | ((finalOutput, results, None), cmds') \<Rightarrow>
             ((state\<lparr>AgentResults := results, FinalOutput := finalOutput\<rparr>, None), cmds'))"
      by blast
    from executeChain_error [of invoke ctx p selected empty_ContextState cmds] run
    show ?thesis
      by (auto split: prod.splits option.splits)
  qed
qed

text \<open>
  What the loop does with the answer of a call, whatever the call is: when the answer
  carries an error, the loop records a failed result in its place, with \<open>Success\<close> false,
  \<open>Error\<close> the error's text and exit code 1, and goes on with the next step; otherwise it
  records the result the call returned.  Unless the context is cancelled, every agent of
  the list gets its step.  The only errors \<open>executeChain\<close> and \<open>RunWithAuto\<close> return are
  the two errors of a cancelled context, and \<open>RunWithExplicitChain\<close> returns these or the
  not-found error for a name of its list.
\<close>

lemma executeChain_records_every_step:
  "\<exists>results new.
     fst (snd (fst (executeChain invoke ctx prompt agentList initialContext cmds))) = results \<and>
     snd (executeChain invoke ctx prompt agentList initialContext cmds) = cmds @ new \<and>
     length new = length results \<and>
     ((\<forall>k<length agentList. ctx k = Active) \<longrightarrow>
        length results = length agentList \<and>
        snd (snd (fst (executeChain invoke ctx prompt agentList initialContext cmds))) = None) \<and>
     (\<forall>k<length results.
        fst (new ! k) = Name (agentList ! k) \<and>
        (\<forall>err. snd (invoke (length cmds + k) (Name (agentList ! k)) (snd (new ! k))) = Some err
           \<longrightarrow> results ! k =
                 \<lparr>Agent = Name (agentList ! k), Success = False, Output = None,
                    Error = error_text err, ExitCode = 1, Duration = 0, Timestamp = 0\<rparr>) \<and>
        (snd (invoke (length cmds + k) (Name (agentList ! k)) (snd (new ! k))) = None
           \<longrightarrow> results ! k =
                 fst (invoke (length cmds + k) (Name (agentList ! k)) (snd (new ! k))))) \<and>
     (snd (snd (fst (executeChain invoke ctx prompt agentList initialContext cmds))) = None \<or>
      snd (snd (fst (executeChain invoke ctx prompt agentList initialContext cmds)))
        = Some ContextCanceled \<or>
      snd (snd (fst (executeChain invoke ctx prompt agentList initialContext cmds)))
        = Some ContextDeadlineExceeded) \<and>
     (snd (fst (RunWithAuto o' invoke ctx visit1 visit2 p cmds)) = None \<or>
      snd (fst (RunWithAuto o' invoke ctx visit1 visit2 p cmds)) = Some ContextCanceled \<or>
      snd (fst (RunWithAuto o' invoke ctx visit1 visit2 p cmds)) = Some ContextDeadlineExceeded) \<and>
     ((\<exists>name \<in> set names.
         snd (fst (RunWithExplicitChain o' invoke ctx visit1 p names cmds))
           = Some (AgentNotFound name)) \<or>
      snd (fst (RunWithExplicitChain o' invoke ctx visit1 p names cmds)) = None \<or>
      snd (fst (RunWithExplicitChain o' invoke ctx visit1 p names cmds)) = Some ContextCanceled \<or>
      snd (fst (RunWithExplicitChain o' invoke ctx visit1 p names cmds))
        = Some ContextDeadlineExceeded)"
proof -
  from executeChain_trace [of invoke ctx prompt agentList initialContext cmds]
  obtain results new where
    r: "fst (snd (fst (executeChain invoke ctx prompt agentList initialContext cmds))) = results"
    and c: "snd (executeChain invoke ctx prompt agentList initialContext cmds) = cmds @ new"
    and len: "length new = length results" "length results \<le> length agentList"
    and err: "snd (snd (fst (executeChain invoke ctx prompt agentList initialContext cmds)))
       = (if length results = length agentList then None else ctx_Err (ctx (length results)))"
    and halt: "length results < length agentList \<longrightarrow> ctx_Err (ctx (length results)) \<noteq> None"
    and each: "\<forall>k<length results.
        new ! k =
          (Name (agentList ! k),
           buildAgentPrompt prompt (agentList ! k)
             (initialContext\<lparr>AgentResults :=
                AgentResults initialContext @ filter forwarded (take k results)\<rparr>)) \<and>
        results ! k =
          record_outcome (agentList ! k)
            (invoke (length cmds + k) (Name (agentList ! k)) (snd (new ! k)))"
    by blast
  have all: "length results = length agentList" if "\<forall>k<length agentList. ctx k = Active"
  proof (rule ccontr)
    assume "length results \<noteq> length agentList"
    with len have l: "length results < length agentList" by simp
    with halt have "ctx_Err (ctx (length results)) \<noteq> None" by simp
    moreover from that l have "ctx (length results) = Active" by simp
    ultimately show False by simp
  qed
  have steps: "fst (new ! k) = Name (agentList ! k) \<and>
        (\<forall>err. snd (invoke (length cmds + k) (Name (agentList ! k)) (snd (new ! k))) = Some err
           \<longrightarrow> results ! k =
                 \<lparr>Agent = Name (agentList ! k), Success = False, Output = None,
                    Error = error_text err, ExitCode = 1, Duration = 0, Timestamp = 0\<rparr>) \<and>
        (snd (invoke (length cmds + k) (Name (agentList ! k)) (snd (new ! k))) = None
           \<longrightarrow> results ! k =
                 fst (invoke (length cmds + k) (Name (agentList ! k)) (snd (new ! k))))"
    if "k < length results" for k
    using each [rule_format, OF that] by (simp add: record_outcome_def)
  show ?thesis
    apply (rule exI [of _ results], rule exI [of _ new])
    using r c len all err steps
      executeChain_error [of invoke ctx prompt agentList initialContext cmds]
      RunWithAuto_error [of o' invoke ctx visit1 visit2 p cmds]
      RunWithExplicitChain_error [of names o' invoke ctx visit1 p cmds]
    by simp
qed

text \<open>
  Claim C5.  The claim holds of the loop, but not of the program: the call of the loop is
  \<open>InvokeAgent\<close> of package cli, which returns no error on any path, although its comment
  promises one when the command could not be run.  So when the command of a step cannot be
  started at all, the loop's conversion is not reached and the result recorded is the one
  \<open>InvokeAgent\<close> built, with \<open>Success\<close> false and \<open>Error\<close> set but exit code 0, not the
  non-zero code the claim states.  The chain still goes on: the second step runs and no
  error is returned.
\<close>

theorem could_not_start_records_exit_code_zero:
  "fail_then_succeed 0 ''a'' (''p'' @ identity_preamble agent_a) = failed_run \<and>
   run_err failed_run = Some (OtherError ''exec: copilot: executable file not found in $PATH'') \<and>
   snd (sample_invoke 0 ''a'' (''p'' @ identity_preamble agent_a)) = None \<and>
   fst (snd (fst (executeChain sample_invoke never_done ''p'' [agent_a, agent_b]
     empty_ContextState []))) ! 0 =
     \<lparr>Agent = ''a'', Success = False, Output = None,
        Error = ''exec: copilot: executable file not found in $PATH'',
        ExitCode = 0, Duration = 1, Timestamp = 0\<rparr> \<and>
   map Success (fst (snd (fst (executeChain sample_invoke never_done ''p'' [agent_a, agent_b]
     empty_ContextState [])))) = [False, True] \<and>
   snd (snd (fst (executeChain sample_invoke never_done ''p'' [agent_a, agent_b]
     empty_ContextState []))) = None"
  by code_simp

section \<open>The forwarded results\<close>

lemma previous_loop_entries:
  "previous_loop i xs acc = acc @ concat (map forwarded_entry (enumerate i xs))"
  by (induction xs arbitrary: i acc) (simp_all add: forwarded_entry_def)

lemma buildAgentPrompt_blocks:
  "buildAgentPrompt basePrompt agent contextState =
     basePrompt @ identity_preamble agent
       @ (if AgentResults contextState = [] then []
          else forwarded_block (AgentResults contextState))"
  by (simp add: buildAgentPrompt_def Let_def previous_loop_entries identity_preamble_def
      forwarded_block_def)

lemma InvokeAgent_success_has_output:
  "Success (fst (InvokeAgent lib i run agentName prompt))
     \<Longrightarrow> Output (fst (InvokeAgent lib i run agentName prompt)) \<noteq> None"
  by (auto simp: InvokeAgent_def Let_def split: option.splits run_error.splits if_splits)

lemma cli_outcome_forwarded:
  "forwarded (record_outcome agent (cli_invoke lib i runs n agentName prompt))
     = Success (record_outcome agent (cli_invoke lib i runs n agentName prompt))"
proof -
  have "snd (cli_invoke lib i runs n agentName prompt) = None"
    by (simp add: cli_invoke_def InvokeAgent_def Let_def)
  then show ?thesis
    using InvokeAgent_success_has_output [of lib i "runs n agentName prompt" agentName prompt]
    by (auto simp: forwarded_def record_outcome_def cli_invoke_def)
qed

lemma count_loop_filter:
  "count_loop results successCount = successCount + length (filter Success results)"
  by (induction results arbitrary: successCount) simp_all

lemma synthesizeOutput_footer:
  "\<exists>body. synthesizeOutput contextState results =
     body @ ''Total Agents Executed: '' @ itoa (length results) @ [CHR 0x0A]
       @ ''Successful Executions: '' @ itoa (length (filter Success results)) @ [CHR 0x0A]"
  by (simp add: synthesizeOutput_def Let_def count_loop_filter)

lemma executeChain_output:
  "snd (snd (fst (executeChain invoke ctx prompt agentList initialContext cmds))) = None
     \<Longrightarrow> \<exists>contextState.
           fst (fst (executeChain invoke ctx prompt agentList initialContext cmds)) =
             synthesizeOutput contextState
               (fst (snd (fst (executeChain invoke ctx prompt agentList initialContext cmds)))) \<and>
           length (fst (snd (fst (executeChain invoke ctx prompt agentList initialContext cmds))))
             = length agentList"
proof -
  assume none: "snd (snd (fst (executeChain invoke ctx prompt agentList initialContext cmds))) = None"
  from chain_loop_trace [of invoke ctx prompt agentList "[]" initialContext cmds]
  obtain new_r :: "InvocationResult list" and new_c :: calls where
    eq: "chain_loop invoke ctx prompt agentList [] initialContext cmds =
       ((if length new_r = length agentList
         then synthesizeOutput
                (initialContext\<lparr>AgentResults := AgentResults initialContext @ filter forwarded new_r\<rparr>)
                ([] @ new_r)
         else [],
         [] @ new_r,
         if length new_r = length agentList then None
         else ctx_Err (ctx (length ([] :: InvocationResult list) + length new_r))),
        cmds @ new_c)"
    and len: "length new_r \<le> length agentList"
    and halt: "length new_r < length agentList \<longrightarrow>
        ctx_Err (ctx (length ([] :: InvocationResult list) + length new_r)) \<noteq> None"
    by blast
  have full: "length new_r = length agentList"
  proof (rule ccontr)
    assume ne: "length new_r \<noteq> length agentList"
    with len halt have "ctx_Err (ctx (length new_r)) \<noteq> None" by simp
    with none eq ne show False by (simp add: executeChain_def)
  qed
  with eq show ?thesis
    by (auto simp: executeChain_def)
qed

text \<open>
  Claim C4.  In every chain run through the invoker of package cli, the prompt of step
  \<open>k\<close> is the base prompt, the identity preamble of the step's agent and, if and only if
  one of the results recorded before the step is a success, the block that lists exactly
  the successful ones among them, in the order of their execution, with their names and
  outputs; a failed result is never listed.  When the chain runs to its end, the report
  closes with the number of results and the number of successful ones.  The witness is the
  chain of two agents whose first step fails and whose second succeeds: the second prompt
  has no block, and the report counts 2 results, 1 of them successful.
\<close>

theorem forwarded_block_iff_prior_success:
  "\<exists>results new.
     fst (snd (fst (executeChain (cli_invoke lib ivk runs) ctx prompt agentList
       empty_ContextState cmds))) = results \<and>
     snd (executeChain (cli_invoke lib ivk runs) ctx prompt agentList empty_ContextState cmds)
       = cmds @ new \<and>
     length new = length results \<and>
     (\<forall>k<length results.
        new ! k = (Name (agentList ! k), augmented_prompt prompt (agentList ! k) (take k results))) \<and>
     (snd (snd (fst (executeChain (cli_invoke lib ivk runs) ctx prompt agentList
        empty_ContextState cmds))) = None \<longrightarrow>
        length results = length agentList \<and>
        (\<exists>body.
           fst (fst (executeChain (cli_invoke lib ivk runs) ctx prompt agentList
             empty_ContextState cmds)) =
             body @ ''Total Agents Executed: '' @ itoa (length results) @ [CHR 0x0A]
               @ ''Successful Executions: '' @ itoa (length (filter Success results))
               @ [CHR 0x0A]))"
proof -
  let ?run = "executeChain (cli_invoke lib ivk runs) ctx prompt agentList empty_ContextState cmds"
  from executeChain_trace [of "cli_invoke lib ivk runs" ctx prompt agentList empty_ContextState cmds]
  obtain results :: "InvocationResult list" and new :: calls where
    r: "fst (snd (fst ?run)) = results"
    and c: "snd ?run = cmds @ new"
    and len: "length new = length results"
    and each: "\<forall>k<length results.
        new ! k =
          (Name (agentList ! k),
           buildAgentPrompt prompt (agentList ! k)
             (empty_ContextState\<lparr>AgentResults :=
                AgentResults empty_ContextState @ filter forwarded (take k results)\<rparr>)) \<and>
        results ! k =
          record_outcome (agentList ! k)
            (cli_invoke lib ivk runs (length cmds + k) (Name (agentList ! k)) (snd (new ! k)))"
    by blast
  have fw: "forwarded x = Success x" if "x \<in> set results" for x
  proof -
    from that obtain k where k: "k < length results" "x = results ! k"
      by (auto simp: in_set_conv_nth)
    with each have "x = record_outcome (agentList ! k)
        (cli_invoke lib ivk runs (length cmds + k) (Name (agentList ! k)) (snd (new ! k)))"
      by simp
    then show ?thesis
      by (simp add: cli_outcome_forwarded)
  qed
  have flt: "filter forwarded (take k results) = filter Success (take k results)" for k
    by (rule filter_cong) (auto dest: in_set_takeD simp: fw)
  have prompts: "new ! k = (Name (agentList ! k), augmented_prompt prompt (agentList ! k) (take k results))"
    if "k < length results" for k
  proof -
    have "(filter Success (take k results) = []) = (\<not> (\<exists>x \<in> set (take k results). Success x))"
      by (simp add: filter_empty_conv)
    with each [rule_format, OF that] show ?thesis
      by (simp add: buildAgentPrompt_blocks augmented_prompt_def flt empty_ContextState_def)
  qed
  have out: "length results = length agentList \<and>
        (\<exists>body. fst (fst ?run) =
             body @ ''Total Agents Executed: '' @ itoa (length results) @ [CHR 0x0A]
               @ ''Successful Executions: '' @ itoa (length (filter Success results))
               @ [CHR 0x0A])"
    if "snd (snd (fst ?run)) = None"
  proof -
    from executeChain_output [OF that] r obtain contextState where
      o: "fst (fst ?run) = synthesizeOutput contextState results"
      and l: "length results = length agentList"
      by auto
    from synthesizeOutput_footer [of contextState results] o l show ?thesis
      by simp
  qed
  show ?thesis
  proof (intro exI conjI allI impI)
    show "fst (snd (fst ?run)) = results" by (rule r)
    show "snd ?run = cmds @ new" by (rule c)
    show "length new = length results" by (rule len)
    show "new ! k = (Name (agentList ! k), augmented_prompt prompt (agentList ! k) (take k results))"
      if "k < length results" for k
      using that by (rule prompts)
    show "length results = length agentList" if "snd (snd (fst ?run)) = None"
      using out [OF that] by (rule conjunct1)
    show "fst (fst ?run) =
        (SOME body. fst (fst ?run) =
             body @ ''Total Agents Executed: '' @ itoa (length results) @ [CHR 0x0A]
               @ ''Successful Executions: '' @ itoa (length (filter Success results))
               @ [CHR 0x0A])
          @ ''Total Agents Executed: '' @ itoa (length results) @ [CHR 0x0A]
          @ ''Successful Executions: '' @ itoa (length (filter Success results)) @ [CHR 0x0A]"
      if "snd (snd (fst ?run)) = None"
      using out [OF that, THEN conjunct2] by (rule someI_ex)
  qed
qed

theorem forwarded_block_iff_prior_success_witness:
  "map Success (fst (snd (fst (executeChain sample_invoke never_done ''p''
      [agent_a, agent_b] empty_ContextState [])))) = [False, True] \<and>
   snd (snd (fst (executeChain sample_invoke never_done ''p''
      [agent_a, agent_b] empty_ContextState []))) = None \<and>
   snd (executeChain sample_invoke never_done ''p'' [agent_a, agent_b]
      empty_ContextState []) ! 1 = (''b'', ''p'' @ identity_preamble agent_b) \<and>
   (\<exists>body. fst (fst (executeChain sample_invoke never_done ''p''
       [agent_a, agent_b] empty_ContextState [])) =
      body @ ''Total Agents Executed: '' @ ''2'' @ [CHR 0x0A]
        @ ''Successful Executions: '' @ ''1'' @ [CHR 0x0A]) \<and>
   snd (executeChain sample_invoke never_done ''p'' [agent_a, agent_b, agent_c]
      empty_ContextState []) ! 2 =
     (''c'', ''p'' @ identity_preamble agent_c
        @ forwarded_block [fst (sample_invoke 1 ''b'' (''p'' @ identity_preamble agent_b))])"
proof -
  let ?run = "executeChain sample_invoke never_done ''p'' [agent_a, agent_b]
      empty_ContextState []"
  have flags: "map Success (fst (snd (fst ?run))) = [False, True]"
    by code_simp
  have err: "snd (snd (fst ?run)) = None"
    by code_simp
  have call1: "snd ?run ! 1 = (''b'', ''p'' @ identity_preamble agent_b)"
    by code_simp
  have call2: "snd (executeChain sample_invoke never_done ''p'' [agent_a, agent_b, agent_c]
      empty_ContextState []) ! 2 =
     (''c'', ''p'' @ identity_preamble agent_c
        @ forwarded_block [fst (sample_invoke 1 ''b'' (''p'' @ identity_preamble agent_b))])"
    by code_simp
  have total: "itoa (length (fst (snd (fst ?run)))) = ''2''"
    by code_simp
  have good: "itoa (length (filter Success (fst (snd (fst ?run))))) = ''1''"
    by code_simp
  note inst = forwarded_block_iff_prior_success [of sample_lib sample_invoker fail_then_succeed
      never_done "''p''" "[agent_a, agent_b]" "[]", folded sample_invoke_def]
  from inst have footer: "\<exists>body. fst (fst ?run) =
      body @ ''Total Agents Executed: '' @ ''2'' @ [CHR 0x0A]
        @ ''Successful Executions: '' @ ''1'' @ [CHR 0x0A]"
  proof (elim exE conjE)
    fix results :: "InvocationResult list" and new :: calls
    assume r: "fst (snd (fst ?run)) = results"
      and out: "snd (snd (fst ?run)) = None \<longrightarrow>
        length results = length [agent_a, agent_b] \<and>
        (\<exists>body. fst (fst ?run) =
             body @ ''Total Agents Executed: '' @ itoa (length results) @ [CHR 0x0A]
               @ ''Successful Executions: '' @ itoa (length (filter Success results))
               @ [CHR 0x0A])"
    from out [rule_format, OF err, THEN conjunct2]
    show ?thesis
      unfolding r [symmetric] total good .
  qed
  from flags err call1 footer call2 show ?thesis
    by (intro conjI)
qed

section \<open>The confidence score\<close>

lemma vagueness_loop_once:
  "vagueness_loop patterns prompt result =
     (if \<exists>pattern \<in> set patterns. MatchString pattern (ToLower prompt)
      then result\<lparr>DetectedIssues := DetectedIssues result @
               [''Prompt uses vague terms (e.g., 'it', 'this', 'module')''],
             Confidence := f64_sub (Confidence result) (f64_lit 2 10)\<rparr>
      else result)"
  by (induction patterns) simp_all

lemma action_loop_any:
  "action_loop verbs promptLower = (\<exists>verb \<in> set verbs. Contains promptLower verb)"
  by (induction verbs) simp_all

lemma f64_consts:
  "\<not> f64_less (f64_lit 1 1) (f64_lit 0 1)" "f64_le (f64_lit 0 1) (f64_lit 1 1)"
  "f64_le (f64_lit 0 1) (f64_lit 0 1)" "f64_le (f64_lit 1 1) (f64_lit 1 1)"
  by code_simp+



lemma NewEvaluator_fields:
  "minimumLength NewEvaluator = 10" "minimumWords NewEvaluator = 2"
  "confidenceThreshold NewEvaluator = f64_lit 7 10"
  by (simp_all add: NewEvaluator_def)

lemma check_length_fields:
  "Confidence (check_length NewEvaluator t r) = penalty (length t < 10) (Confidence r)"
  "DetectedIssues (check_length NewEvaluator t r) =
     DetectedIssues r @ (if length t < 10 then [''Prompt is too short and lacks context''] else [])"
  by (simp_all add: check_length_def penalty_def NewEvaluator_fields)

lemma check_words_fields:
  "Confidence (check_words NewEvaluator t r) = penalty (length (Fields t) < 2) (Confidence r)"
  "DetectedIssues (check_words NewEvaluator t r) =
     DetectedIssues r @ (if length (Fields t) < 2 then [''Prompt lacks sufficient detail''] else [])"
  by (simp_all add: check_words_def penalty_def NewEvaluator_fields Let_def)

lemma vagueness_loop_fields:
  "Confidence (vagueness_loop (vaguenessPatterns NewEvaluator) t r) = penalty (is_vague t) (Confidence r)"
  "DetectedIssues (vagueness_loop (vaguenessPatterns NewEvaluator) t r) =
     DetectedIssues r @
       (if is_vague t then [''Prompt uses vague terms (e.g., 'it', 'this', 'module')''] else [])"
  by (simp_all add: vagueness_loop_once penalty_def is_vague_def)

lemma add_bonuses_fields:
  "Confidence (add_bonuses t r) =
     bonus (has_action_verb t) (bonus (has_call_token t) (bonus (has_path_token t) (Confidence r)))"
  "DetectedIssues (add_bonuses t r) = DetectedIssues r"
  by (simp_all add: add_bonuses_def bonus_def Let_def has_action_verb_def has_call_token_def
      has_path_token_def containsActionVerb_def action_loop_any)

lemma clamp_confidence_fields:
  "Confidence (clamp_confidence r) = clamp01 (Confidence r)"
  "DetectedIssues (clamp_confidence r) = DetectedIssues r"
  by (simp_all add: clamp_confidence_def clamp01_def Let_def f64_consts)

lemma determine_clarity_fields:
  "Confidence (determine_clarity NewEvaluator r) = Confidence r"
  "DetectedIssues (determine_clarity NewEvaluator r) = DetectedIssues r"
  "IsClear (determine_clarity NewEvaluator r) = f64_le (f64_lit 7 10) (Confidence r)"
  by (simp_all add: determine_clarity_def NewEvaluator_fields)

lemma generate_feedback_fields:
  "Confidence (generate_feedback e t r) = Confidence r"
  "IsClear (generate_feedback e t r) = IsClear r"
  "EvaluationResult.RefinedPrompt (generate_feedback e t r) =
     (if IsClear r then t else suggestRefinement e t (DetectedIssues r))"
  by (simp_all add: generate_feedback_def Let_def)

lemma Evaluate_nonempty:
  assumes "TrimSpace prompt \<noteq> []"
  shows "Confidence (Evaluate NewEvaluator visit prompt) = spec_confidence (TrimSpace prompt)"
    and "IsClear (Evaluate NewEvaluator visit prompt)
           = f64_le (f64_lit 7 10) (spec_confidence (TrimSpace prompt))"
    and "EvaluationResult.RefinedPrompt (Evaluate NewEvaluator visit prompt) =
           (if f64_le (f64_lit 7 10) (spec_confidence (TrimSpace prompt)) then TrimSpace prompt
            else suggestRefinement NewEvaluator (TrimSpace prompt) (spec_issues (TrimSpace prompt)))"
  using assms
  by (simp_all add: Evaluate_def Let_def generate_feedback_fields determine_clarity_fields
      clamp_confidence_fields add_bonuses_fields vagueness_loop_fields check_words_fields
      check_length_fields spec_confidence_def spec_issues_def)

lemma Evaluate_empty:
  "TrimSpace prompt = [] \<Longrightarrow>
     Confidence (Evaluate NewEvaluator visit prompt) = f64_lit 0 1 \<and>
     \<not> IsClear (Evaluate NewEvaluator visit prompt) \<and>
     EvaluationResult.RefinedPrompt (Evaluate NewEvaluator visit prompt) = prompt"
  by (simp add: Evaluate_def Let_def)



section \<open>Re-evaluating a refined prompt\<close>

lemma HasPrefix_take: "HasPrefix s w \<longleftrightarrow> take (length w) s = w"
  by (induction s w rule: HasPrefix.induct) auto

lemma HasPrefix_length: "HasPrefix s w \<Longrightarrow> length w \<le> length s"
proof -
  assume "HasPrefix s w"
  then have "length (take (length w) s) = length w"
    by (simp add: HasPrefix_take)
  then show ?thesis
    by simp
qed

lemma HasPrefix_of_take: "HasPrefix (take m d) w \<Longrightarrow> HasPrefix d w"
  by (induction d w arbitrary: m rule: HasPrefix.induct) (auto simp: take_Cons' split: if_splits)

lemma HasPrefix_no_straddle:
  "c \<notin> set w \<Longrightarrow> HasPrefix (x @ c # y) w = HasPrefix x w"
proof (induction x arbitrary: w)
  case Nil
  then show ?case by (cases w) auto
next
  case (Cons a x)
  then show ?case by (cases w) auto
qed

lemma HasPrefix_append_sep:
  "x \<noteq> [] \<Longrightarrow> c \<notin> set (tl w) \<Longrightarrow> HasPrefix (x @ c # y) w = HasPrefix x w"
  by (cases x; cases w) (simp_all add: HasPrefix_no_straddle)

lemma spaceWidth_append_sep:
  "x \<noteq> [] \<Longrightarrow> \<forall>w \<in> set ws. c \<notin> set (tl w) \<Longrightarrow> spaceWidth ws (x @ c # y) = spaceWidth ws x"
  by (induction ws) (simp_all add: HasPrefix_append_sep)

lemma spaceWidth_le: "spaceWidth ws s \<le> length s"
  by (induction ws) (auto simp: HasPrefix_length)

lemma spaceWidth_zero:
  "[] \<notin> set ws \<Longrightarrow> spaceWidth ws s = 0 \<longleftrightarrow> (\<forall>w \<in> set ws. \<not> HasPrefix s w)"
  by (induction ws) auto

lemma trimLeft_same: "spaceWidth ws s = 0 \<Longrightarrow> trimLeft ws s = s"
  by (simp add: trimLeft.simps)

lemma trimLeft_Nil: "trimLeft ws [] = []"
  by (simp add: trimLeft.simps)

lemma trimLeft_done: "trimLeft ws s \<noteq> [] \<Longrightarrow> spaceWidth ws (trimLeft ws s) = 0"
proof (induction ws s rule: trimLeft.induct)
  case (1 ws s)
  show ?case
  proof (cases "0 < spaceWidth ws s \<and> s \<noteq> []")
    case True
    then have eq: "trimLeft ws s = trimLeft ws (drop (spaceWidth ws s) s)"
      by (subst trimLeft.simps) (simp add: Let_def)
    from 1 True show ?thesis
      unfolding eq by simp
  next
    case False
    then have eq: "trimLeft ws s = s"
      by (subst trimLeft.simps) (auto simp: Let_def)
    from False 1(2) show ?thesis
      unfolding eq by simp
  qed
qed

lemma trimLeft_drop: "\<exists>k. trimLeft ws s = drop k s"
proof (induction ws s rule: trimLeft.induct)
  case (1 ws s)
  show ?case
  proof (cases "0 < spaceWidth ws s \<and> s \<noteq> []")
    case True
    then have eq: "trimLeft ws s = trimLeft ws (drop (spaceWidth ws s) s)"
      by (subst trimLeft.simps) (simp add: Let_def)
    from 1 [OF refl True]
    obtain k where "trimLeft ws (drop (spaceWidth ws s) s) = drop k (drop (spaceWidth ws s) s)"
      by blast
    then show ?thesis
      unfolding eq by (metis drop_drop)
  next
    case False
    then have "trimLeft ws s = drop 0 s"
      by (subst trimLeft.simps) (auto simp: Let_def)
    then show ?thesis ..
  qed
qed

lemma spaces_nonempty: "[] \<notin> set spaces" "[] \<notin> set (map rev spaces)"
  by (simp_all add: spaces_def)

lemma spaces_blank:
  "\<forall>w \<in> set spaces. CHR '' '' \<notin> set (tl w)"
  "\<forall>w \<in> set (map rev spaces). CHR '' '' \<notin> set (tl w)"
  by (simp_all add: spaces_def)

lemma TrimSpace_ends:
  assumes "TrimSpace p \<noteq> []"
  shows "spaceWidth spaces (TrimSpace p) = 0 \<and>
         spaceWidth (map rev spaces) (rev (TrimSpace p)) = 0"
proof -
  define d where "d = trimLeft spaces p"
  define e where "e = trimLeft (map rev spaces) (rev d)"
  have t: "TrimSpace p = rev e"
    by (simp add: TrimSpace_def d_def e_def)
  with assms have e: "e \<noteq> []" by simp
  then have d: "d \<noteq> []" by (auto simp: e_def trimLeft_Nil)
  from e have right: "spaceWidth (map rev spaces) e = 0"
    unfolding e_def by (rule trimLeft_done)
  from d have "spaceWidth spaces d = 0"
    unfolding d_def by (rule trimLeft_done)
  then have none: "\<forall>w \<in> set spaces. \<not> HasPrefix d w"
    by (simp add: spaceWidth_zero spaces_nonempty)
  obtain k where "e = drop k (rev d)"
    unfolding e_def using trimLeft_drop by blast
  then have "rev e = take (length d - k) d"
    by (simp add: rev_drop)
  with none have "\<forall>w \<in> set spaces. \<not> HasPrefix (rev e) w"
    using HasPrefix_of_take by metis
  then have "spaceWidth spaces (rev e) = 0"
    by (simp add: spaceWidth_zero spaces_nonempty)
  with right show ?thesis
    by (simp add: t)
qed

lemma TrimSpace_same:
  assumes "spaceWidth spaces s = 0" and "spaceWidth (map rev spaces) (rev s) = 0"
  shows "TrimSpace s = s"
  using assms by (simp add: TrimSpace_def trimLeft_same)

lemma TrimSpace_Nil: "TrimSpace [] = []"
  by (simp add: TrimSpace_def trimLeft_Nil)

lemma TrimSpace_idem: "TrimSpace (TrimSpace p) = TrimSpace p"
proof (cases "TrimSpace p = []")
  case True
  then show ?thesis by (simp add: TrimSpace_Nil)
next
  case False
  from TrimSpace_ends [OF False] show ?thesis
    by (simp add: TrimSpace_same)
qed

lemma spaceWidth_blank: "spaceWidth spaces (CHR '' '' # y) = 1"
  by (simp add: spaces_def)

lemma fields_from_append_space:
  "fields_from cur (x @ CHR '' '' # y) = fields_from cur x @ fields_from [] y"
proof (induction cur x rule: fields_from.induct)
  case (1 cur s)
  show ?case
  proof (cases "s = []")
    case True
    then show ?thesis
      by (simp add: fields_from.simps [of cur "CHR '' '' # y"] fields_from.simps [of cur "[]"]
          spaceWidth_blank)
  next
    case False
    note ne = this
    have w: "spaceWidth spaces (s @ CHR '' '' # y) = spaceWidth spaces s"
      using ne spaces_blank(1) by (rule spaceWidth_append_sep)
    show ?thesis
    proof (cases "0 < spaceWidth spaces s")
      case True
      from spaceWidth_le [of spaces s]
      have "drop (spaceWidth spaces s) (s @ CHR '' '' # y)
          = drop (spaceWidth spaces s) s @ CHR '' '' # y"
        by simp
      with 1(1) [OF ne refl True] ne True show ?thesis
        by (simp add: fields_from.simps [of cur "s @ CHR '' '' # y"] fields_from.simps [of cur s] w)
    next
      case False
      with 1(2) [OF ne refl False] ne show ?thesis
        by (simp add: fields_from.simps [of cur "s @ CHR '' '' # y"] fields_from.simps [of cur s] w)
    qed
  qed
qed

lemma ToLower_append_space:
  "ToLower (x @ CHR '' '' # y) = ToLower x @ ToLower (CHR '' '' # y)"
proof (induction x rule: ToLower.induct)
  case (1 s)
  show ?case
  proof (cases "s = []")
    case True
    then show ?thesis
      by (simp add: ToLower.simps [of "[]"])
  next
    case False
    note ne = this
    have p: "HasPrefix (s @ CHR '' '' # y) w = HasPrefix s w"
      if "w = [CHR 0xC4, CHR 0xB0] \<or> w = [CHR 0xE2, CHR 0x84, CHR 0xAA]" for w
      using ne that by (intro HasPrefix_append_sep) auto
    show ?thesis
    proof (cases "HasPrefix s [CHR 0xC4, CHR 0xB0]")
      case True
      from HasPrefix_length [OF True]
      have "drop 2 (s @ CHR '' '' # y) = drop 2 s @ CHR '' '' # y"
        by simp
      with 1(1) [OF ne True] True ne show ?thesis
        by (simp add: ToLower.simps [of "s @ CHR '' '' # y"] ToLower.simps [of s] p
            del: drop_append)
    next
      case False
      note a = this
      show ?thesis
      proof (cases "HasPrefix s [CHR 0xE2, CHR 0x84, CHR 0xAA]")
        case True
        from HasPrefix_length [OF True]
        have "drop 3 (s @ CHR '' '' # y) = drop 3 s @ CHR '' '' # y"
          by simp
        with 1(2) [OF ne a True] True ne a show ?thesis
          by (simp add: ToLower.simps [of "s @ CHR '' '' # y"] ToLower.simps [of s] p
              del: drop_append)
      next
        case False
        with 1(3) [OF ne a False] ne a show ?thesis
          by (simp add: ToLower.simps [of "s @ CHR '' '' # y"] ToLower.simps [of s] p)
      qed
    qed
  qed
qed

lemma HasPrefix_append: "HasPrefix s sub \<Longrightarrow> HasPrefix (s @ t) sub"
  by (induction s sub rule: HasPrefix.induct) simp_all

lemma Contains_append: "Contains s sub \<Longrightarrow> Contains (s @ t) sub"
proof (induction s)
  case Nil
  then show ?case by (cases t) simp_all
next
  case (Cons c cs)
  then show ?case
    using HasPrefix_append [of "c # cs" sub t] by auto
qed

lemma table_counts:
  "spec_confidence t = confidence_table (penalty_count t) (bonus_count t)"
  by (simp add: spec_confidence_def confidence_table_def penalty_count_def bonus_count_def
      penalty_def bonus_def numeral_2_eq_2 numeral_3_eq_3)

lemma count_bounds: "penalty_count t \<le> 3" "bonus_count t \<le> 3"
  by (simp_all add: penalty_count_def bonus_count_def)

lemma table_values:
  "confidence_table 0 0 = (6305039478318694, - 53)"
  "confidence_table 0 (Suc 0) = (7205759403792793, - 53)"
  "confidence_table 0 2 = (8106479329266892, - 53)"
  "confidence_table 0 3 = (9007199254740991, - 53)"
  "confidence_table (Suc 0) 0 = (9007199254740991, - 54)"
  "confidence_table (Suc 0) (Suc 0) = (5404319552844595, - 53)"
  "confidence_table (Suc 0) 2 = (6305039478318694, - 53)"
  "confidence_table (Suc 0) 3 = (7205759403792793, - 53)"
  "confidence_table 2 0 = (5404319552844594, - 54)"
  "confidence_table 2 (Suc 0) = (7205759403792792, - 54)"
  "confidence_table 2 2 = (9007199254740990, - 54)"
  "confidence_table 2 3 = (5404319552844594, - 53)"
  "confidence_table 3 0 = (7205759403792788, - 56)"
  "confidence_table 3 (Suc 0) = (7205759403792791, - 55)"
  "confidence_table 3 2 = (5404319552844594, - 54)"
  "confidence_table 3 3 = (7205759403792792, - 54)"
  by code_simp+

lemma table_mono:
  assumes "k' \<le> k" and "k \<le> 3" and "m \<le> m'" and "m' \<le> 3"
  shows "f64_le (confidence_table k m) (confidence_table k' m')"
proof -
  from assms have "k \<in> {0, Suc 0, 2, 3}" "k' \<in> {0, Suc 0, 2, 3}"
      "m \<in> {0, Suc 0, 2, 3}" "m' \<in> {0, Suc 0, 2, 3}"
    by auto
  then show ?thesis
    using assms(1,3)
    by (elim insertE emptyE; simp add: table_values f64_le_def)
qed

lemma table_clear:
  "f64_le (f64_lit 7 10) (confidence_table 0 m)" if "m \<le> 3"
proof -
  from that have "m \<in> {0, Suc 0, 2, 3}" by auto
  moreover have "f64_lit 7 10 = (6305039478318694, - 53)" by code_simp
  ultimately show ?thesis
    by (elim insertE emptyE; simp add: table_values f64_le_def)
qed

lemma bonus_count_append: "bonus_count t \<le> bonus_count (t @ CHR '' '' # rest)"
proof -
  have "has_path_token t \<Longrightarrow> has_path_token (t @ CHR '' '' # rest)"
    and "has_call_token t \<Longrightarrow> has_call_token (t @ CHR '' '' # rest)"
    and "has_action_verb t \<Longrightarrow> has_action_verb (t @ CHR '' '' # rest)"
    by (auto simp: has_path_token_def has_call_token_def has_action_verb_def
        ToLower_append_space intro: Contains_append)
  then show ?thesis
    by (auto simp: bonus_count_def)
qed

lemma appended_counts:
  assumes t: "TrimSpace p \<noteq> []"
    and rest: "rest \<noteq> []" "spaceWidth (map rev spaces) (rev rest) = 0"
      "2 \<le> length (Fields rest)" "9 \<le> length rest"
  shows "TrimSpace (TrimSpace p @ CHR '' '' # rest) = TrimSpace p @ CHR '' '' # rest"
    and "penalty_count (TrimSpace p @ CHR '' '' # rest) \<le> 1"
proof -
  from TrimSpace_ends [OF t]
  have "spaceWidth spaces (TrimSpace p) = 0"
    by simp
  with t have left: "spaceWidth spaces (TrimSpace p @ CHR '' '' # rest) = 0"
    by (simp add: spaceWidth_append_sep spaces_blank)
  from rest(1) have "rev rest \<noteq> []"
    by simp
  then have "spaceWidth (map rev spaces) (rev rest @ CHR '' '' # rev (TrimSpace p))
      = spaceWidth (map rev spaces) (rev rest)"
    using spaces_blank(2) by (rule spaceWidth_append_sep)
  with rest(2) have right: "spaceWidth (map rev spaces) (rev (TrimSpace p @ CHR '' '' # rest)) = 0"
    by simp
  from left right
  show "TrimSpace (TrimSpace p @ CHR '' '' # rest) = TrimSpace p @ CHR '' '' # rest"
    by (rule TrimSpace_same)
  have "Fields (TrimSpace p @ CHR '' '' # rest) = Fields (TrimSpace p) @ Fields rest"
    unfolding Fields_def by (rule fields_from_append_space)
  with rest(3) have "\<not> length (Fields (TrimSpace p @ CHR '' '' # rest)) < 2"
    by simp
  moreover from rest(4) have "\<not> length (TrimSpace p @ CHR '' '' # rest) < 10"
    by simp
  ultimately show "penalty_count (TrimSpace p @ CHR '' '' # rest) \<le> 1"
    unfolding penalty_count_def by simp
qed

lemma issue_tests:
  "Contains ''Prompt is too short and lacks context'' ''vague'' = False"
  "Contains ''Prompt is too short and lacks context'' ''too short'' = True"
  "Contains ''Prompt lacks sufficient detail'' ''vague'' = False"
  "Contains ''Prompt lacks sufficient detail'' ''too short'' = False"
  "Contains ''Prompt uses vague terms (e.g., 'it', 'this', 'module')'' ''vague'' = True"
  "Contains ''Prompt uses vague terms (e.g., 'it', 'this', 'module')'' ''too short'' = False"
  by code_simp+

lemma suffix_tests:
  "spaceWidth (map rev spaces) (rev ''for correctness and best practices'') = 0"
  "2 \<le> length (Fields ''for correctness and best practices'')"
  "spaceWidth (map rev spaces) (rev ''including error handling and edge cases'') = 0"
  "2 \<le> length (Fields ''including error handling and edge cases'')"
  by code_simp+

lemma suggestRefinement_cases:
  "suggestRefinement NewEvaluator t (spec_issues t) = t \<or>
   (1 \<le> penalty_count t \<and>
    (suggestRefinement NewEvaluator t (spec_issues t)
       = t @ CHR '' '' # ''for correctness and best practices'' \<or>
     suggestRefinement NewEvaluator t (spec_issues t)
       = t @ CHR '' '' # ''including error handling and edge cases''))"
proof (cases "length t < 10")
  case True
  then have "spec_issues t = ''Prompt is too short and lacks context'' # tl (spec_issues t)"
    by (simp add: spec_issues_def)
  then have "0 < length (spec_issues t)"
      "hd (spec_issues t) = ''Prompt is too short and lacks context''"
    by (metis length_greater_0_conv list.distinct(1), metis list.sel(1))
  moreover from True have "1 \<le> penalty_count t"
    by (simp add: penalty_count_def)
  ultimately show ?thesis
    by (simp add: suggestRefinement_def Let_def issue_tests del: Contains.simps)
next
  case False
  note long = this
  show ?thesis
  proof (cases "length (Fields t) < 2")
    case True
    with long have "spec_issues t = ''Prompt lacks sufficient detail'' # tl (spec_issues t)"
      by (simp add: spec_issues_def)
    then have "0 < length (spec_issues t)"
        "hd (spec_issues t) = ''Prompt lacks sufficient detail''"
      by (metis length_greater_0_conv list.distinct(1), metis list.sel(1))
    then show ?thesis
      by (simp add: suggestRefinement_def Let_def issue_tests del: Contains.simps)
  next
    case False
    show ?thesis
    proof (cases "is_vague t")
      case True
      with long False have "spec_issues t
          = [''Prompt uses vague terms (e.g., 'it', 'this', 'module')'']"
        by (simp add: spec_issues_def)
      moreover from True have "1 \<le> penalty_count t"
        by (simp add: penalty_count_def)
      ultimately show ?thesis
        by (simp add: suggestRefinement_def Let_def issue_tests del: Contains.simps)
    next
      case nv: False
      with long False have "spec_issues t = []"
        by (simp add: spec_issues_def)
      then show ?thesis
        by (simp add: suggestRefinement_def Let_def)
    qed
  qed
qed

lemma refined_counts:
  assumes t: "TrimSpace p \<noteq> []"
  shows "TrimSpace (suggestRefinement NewEvaluator (TrimSpace p) (spec_issues (TrimSpace p))) \<noteq> [] \<and>
         penalty_count (TrimSpace (suggestRefinement NewEvaluator (TrimSpace p)
             (spec_issues (TrimSpace p)))) \<le> penalty_count (TrimSpace p) \<and>
         bonus_count (TrimSpace p) \<le> bonus_count (TrimSpace (suggestRefinement NewEvaluator
             (TrimSpace p) (spec_issues (TrimSpace p))))"
proof -
  let ?t = "TrimSpace p"
  let ?r = "suggestRefinement NewEvaluator ?t (spec_issues ?t)"
  have grown: ?thesis
    if r: "?r = ?t @ CHR '' '' # rest" and one: "1 \<le> penalty_count ?t"
      and rest: "rest \<noteq> []" "spaceWidth (map rev spaces) (rev rest) = 0"
        "2 \<le> length (Fields rest)" "9 \<le> length rest"
    for rest
  proof -
    from appended_counts [OF t rest]
    have same: "TrimSpace (?t @ CHR '' '' # rest) = ?t @ CHR '' '' # rest"
      and pen: "penalty_count (?t @ CHR '' '' # rest) \<le> 1"
      by simp_all
    from pen one have "penalty_count (?t @ CHR '' '' # rest) \<le> penalty_count ?t"
      by simp
    with same bonus_count_append [of ?t rest] show ?thesis
      unfolding r by simp
  qed
  from suggestRefinement_cases [of ?t] show ?thesis
  proof (elim disjE conjE)
    assume "?r = ?t"
    with t show ?thesis
      by (simp add: TrimSpace_idem)
  next
    assume "1 \<le> penalty_count ?t" and "?r = ?t @ CHR '' '' # ''for correctness and best practices''"
    then show ?thesis
      using suffix_tests(1,2)
      by (intro grown [of "''for correctness and best practices''"]) simp_all
  next
    assume "1 \<le> penalty_count ?t"
      and "?r = ?t @ CHR '' '' # ''including error handling and edge cases''"
    then show ?thesis
      using suffix_tests(3,4)
      by (intro grown [of "''including error handling and edge cases''"]) simp_all
  qed
qed

text \<open>
  Claim C8.  When \<open>Evaluate\<close> judges a prompt not clear, evaluating the refined prompt it
  returns gives a confidence that is not lower than the confidence of the prompt itself.
  The refined prompt is the trimmed prompt, unchanged or with one of the two qualifiers
  appended; a qualifier lifts the penalties for length and word count, leaves at most the
  penalty for vagueness, and keeps every bonus the prompt had.
\<close>

theorem refinement_keeps_confidence:
  assumes "\<not> IsClear (Evaluate NewEvaluator visit prompt)"
  shows "f64_le (Confidence (Evaluate NewEvaluator visit prompt))
           (Confidence (Evaluate NewEvaluator visit'
              (EvaluationResult.RefinedPrompt (Evaluate NewEvaluator visit prompt))))"
proof (cases "TrimSpace prompt = []")
  case True
  from Evaluate_empty [OF True, of visit] Evaluate_empty [OF True, of visit']
  show ?thesis
    by (simp add: f64_consts)
next
  case False
  let ?t = "TrimSpace prompt"
  let ?r = "suggestRefinement NewEvaluator ?t (spec_issues ?t)"
  from assms Evaluate_nonempty(2,3) [OF False, of visit]
  have refined: "EvaluationResult.RefinedPrompt (Evaluate NewEvaluator visit prompt) = ?r"
    by simp
  from refined_counts [OF False]
  have ne: "TrimSpace ?r \<noteq> []"
    and pen: "penalty_count (TrimSpace ?r) \<le> penalty_count ?t"
    and bon: "bonus_count ?t \<le> bonus_count (TrimSpace ?r)"
    by simp_all
  have "f64_le (confidence_table (penalty_count ?t) (bonus_count ?t))
      (confidence_table (penalty_count (TrimSpace ?r)) (bonus_count (TrimSpace ?r)))"
    using pen count_bounds(1) bon count_bounds(2) by (rule table_mono)
  then show ?thesis
    unfolding refined
    by (simp add: Evaluate_nonempty(1) [OF False] Evaluate_nonempty(1) [OF ne] table_counts)
qed

theorem refinement_keeps_confidence_witness:
  "\<not> IsClear (Evaluate NewEvaluator domainKeywords ''check it'') \<and>
   EvaluationResult.RefinedPrompt (Evaluate NewEvaluator domainKeywords ''check it'')
     = ''check it including error handling and edge cases'' \<and>
   Confidence (Evaluate NewEvaluator domainKeywords ''check it'') = confidence_table 2 1 \<and>
   Confidence (Evaluate NewEvaluator domainKeywords
     ''check it including error handling and edge cases'') = confidence_table 1 1 \<and>
   f64_le (confidence_table 2 1) (confidence_table 1 1)"
proof -
  have a: "\<not> IsClear (Evaluate NewEvaluator domainKeywords ''check it'')"
    by code_simp
  have b: "EvaluationResult.RefinedPrompt (Evaluate NewEvaluator domainKeywords ''check it'')
     = ''check it including error handling and edge cases''"
    by code_simp
  have c: "Confidence (Evaluate NewEvaluator domainKeywords ''check it'') = confidence_table 2 1"
    by code_simp
  have d: "Confidence (Evaluate NewEvaluator domainKeywords
     ''check it including error handling and edge cases'') = confidence_table 1 1"
    by code_simp
  from refinement_keeps_confidence [OF a, of domainKeywords] show ?thesis
    unfolding b c d using a b c d by simp
qed

end
